(* ===== verification/Prelude.thy ===== *)
theory Prelude
  imports Main "HOL-Library.AList" "HOL-Library.List_Lexorder" "HOL-Library.Char_ord"
    "HOL-Library.Product_Lexorder" "HOL-Library.Multiset"
begin

text \<open>
  Shared vocabulary of the development: the Python run-time errors the programs can
  raise and \<open>py_bind\<close>, which propagates them; the list operations \<open>pop()\<close>,
  \<open>pop(i)\<close> and indexing; the string methods \<open>strip\<close>, \<open>lower\<close> and \<open>isdigit\<close>
  on code points 0--255; Python's descending \<open>range(hi, lo, -1)\<close>; and
  \<open>collections.Counter\<close>, modelled as an insertion-ordered association list (a
  Python dict keeps its keys in the order they were first inserted, and
  \<open>Counter(xs)\<close> inserts them in the order of \<open>xs\<close>). The lemmas here are the ones
  several components use: which element a \<open>for \<dots> break\<close> loop over a descending
  range finds, the first item of a list accepted by a test, and what a Counter holds.
\<close>

named_theorems eval_defs "definitions unfolded to run the model on a concrete input"

datatype py_error = TypeError | IndexError | ValueError

text \<open>Code that can raise returns \<open>py_error + 'a\<close>; \<open>py_bind\<close> runs the rest of the code
  only when the step before did not raise, so an exception propagates unchanged.\<close>

definition py_bind :: "py_error + 'a \<Rightarrow> ('a \<Rightarrow> py_error + 'b) \<Rightarrow> py_error + 'b" where
  "py_bind m f = (case m of Inl e \<Rightarrow> Inl e | Inr x \<Rightarrow> f x)"

lemma py_bind_simps [simp]: "py_bind (Inl e) f = Inl e" "py_bind (Inr x) f = f x"
  by (simp_all add: py_bind_def)

lemma py_bind_eq_Inr: "py_bind m f = Inr y \<longleftrightarrow> (\<exists>x. m = Inr x \<and> f x = Inr y)"
  by (cases m) simp_all

lemma py_bind_eq_Inl: "py_bind m f = Inl e \<longleftrightarrow> m = Inl e \<or> (\<exists>x. m = Inr x \<and> f x = Inl e)"
  by (cases m) simp_all

subsection \<open>Python list operations\<close>

text \<open>\<open>xs.pop()\<close>: the last element and the rest; \<open>IndexError\<close> on an empty list.\<close>

definition py_pop :: "'a list \<Rightarrow> py_error + ('a \<times> 'a list)" where
  "py_pop xs = (if xs = [] then Inl IndexError else Inr (last xs, butlast xs))"

text \<open>\<open>xs.pop(i)\<close> for an index \<open>i \<ge> 0\<close>.\<close>

definition py_pop_at :: "nat \<Rightarrow> 'a list \<Rightarrow> py_error + ('a \<times> 'a list)" where
  "py_pop_at i xs = (if i < length xs then Inr (xs ! i, take i xs @ drop (Suc i) xs) else Inl IndexError)"

text \<open>\<open>xs[i]\<close>: a negative index counts from the end.\<close>

definition py_index :: "'a list \<Rightarrow> int \<Rightarrow> py_error + 'a" where
  "py_index xs i =
     (if 0 \<le> i \<and> i < int (length xs) then Inr (xs ! nat i)
      else if i < 0 \<and> - int (length xs) \<le> i then Inr (xs ! nat (int (length xs) + i))
      else Inl IndexError)"

declare py_bind_def [eval_defs] py_pop_def [eval_defs] py_pop_at_def [eval_defs]
  py_index_def [eval_defs]

lemma py_index_nat: "i < length xs \<Longrightarrow> py_index xs (int i) = Inr (xs ! i)"
  by (simp add: py_index_def)

subsection \<open>Python string methods\<close>

text \<open>\<open>str.isspace\<close> on code points 0--255.\<close>

definition py_isspace :: "char \<Rightarrow> bool" where
  "py_isspace c \<longleftrightarrow> of_char c \<in> ({9..13} \<union> {28..32} \<union> {133, 160} :: nat set)"

text \<open>\<open>str.strip()\<close>\<close>

definition py_strip :: "string \<Rightarrow> string" where
  "py_strip s = rev (dropWhile py_isspace (rev (dropWhile py_isspace s)))"

text \<open>\<open>str.lower()\<close> on one code point 0--255.\<close>

definition py_lower :: "char \<Rightarrow> char" where
  "py_lower c =
     (let n = of_char c :: nat
      in if (65 \<le> n \<and> n \<le> 90) \<or> (192 \<le> n \<and> n \<le> 222 \<and> n \<noteq> 215) then char_of (n + 32) else c)"

text \<open>\<open>str.isdigit()\<close> on one code point 0--255: the ASCII digits and the superscripts
  two, three and one.\<close>

definition py_isdigit :: "char \<Rightarrow> bool" where
  "py_isdigit c \<longleftrightarrow> of_char c \<in> ({48..57} \<union> {178, 179, 185} :: nat set)"

declare py_isspace_def [eval_defs] py_strip_def [eval_defs] py_lower_def [eval_defs]
  py_isdigit_def [eval_defs]

subsection \<open>Searching a list\<close>

lemma find_SomeD: "find P xs = Some x \<Longrightarrow> x \<in> set xs \<and> P x"
  by (induction xs) (auto split: if_splits)

lemma count_list_replicate [simp]: "count_list (replicate n x) y = (if x = y then n else 0)"
  by (induction n) auto

text \<open>A list split at its first element with property \<open>P\<close>, the shape of a loop that
  reads items until one is accepted.\<close>

lemma first_split_Cons:
  "(\<exists>pre x. y # ys = pre @ x # rest \<and> \<not> list_ex P pre \<and> P x \<and> Q x) \<longleftrightarrow>
   (if P y then ys = rest \<and> Q y else (\<exists>pre x. ys = pre @ x # rest \<and> \<not> list_ex P pre \<and> P x \<and> Q x))"
proof (cases "P y")
  case True
  show ?thesis
  proof
    assume "\<exists>pre x. y # ys = pre @ x # rest \<and> \<not> list_ex P pre \<and> P x \<and> Q x"
    then obtain pre x where "y # ys = pre @ x # rest" "\<not> list_ex P pre" "Q x" by blast
    with True show "if P y then ys = rest \<and> Q y else (\<exists>pre x. ys = pre @ x # rest \<and> \<not> list_ex P pre \<and> P x \<and> Q x)"
      by (cases pre) auto
  qed (use True in \<open>auto intro!: exI [of _ "[]"]\<close>)
next
  case False
  show ?thesis
  proof
    assume "\<exists>pre x. y # ys = pre @ x # rest \<and> \<not> list_ex P pre \<and> P x \<and> Q x"
    then obtain pre x where "y # ys = pre @ x # rest" "\<not> list_ex P pre" "P x" "Q x" by blast
    with False show "if P y then ys = rest \<and> Q y else (\<exists>pre x. ys = pre @ x # rest \<and> \<not> list_ex P pre \<and> P x \<and> Q x)"
      by (cases pre) auto
  next
    assume "if P y then ys = rest \<and> Q y else (\<exists>pre x. ys = pre @ x # rest \<and> \<not> list_ex P pre \<and> P x \<and> Q x)"
    with False obtain pre x where "ys = pre @ x # rest" "\<not> list_ex P pre" "P x" "Q x" by auto
    with False show "\<exists>pre x. y # ys = pre @ x # rest \<and> \<not> list_ex P pre \<and> P x \<and> Q x"
      by (intro exI [of _ "y # pre"] exI [of _ x]) simp
  qed
qed

lemma find_append:
  "find P (xs @ ys) = (case find P xs of None \<Rightarrow> find P ys | Some x \<Rightarrow> Some x)"
  by (induction xs) simp_all

subsection \<open>Descending ranges\<close>

text \<open>\<open>range(hi, lo, -1)\<close> is \<open>hi, hi - 1, \<dots>, lo + 1\<close>.\<close>

definition py_range_desc :: "int \<Rightarrow> int \<Rightarrow> int list" where
  "py_range_desc hi lo = rev [lo + 1..hi]"

declare py_range_desc_def [eval_defs]

lemma range_desc_rec:
  "py_range_desc hi lo = (if lo < hi then hi # py_range_desc (hi - 1) lo else [])"
  by (simp add: py_range_desc_def upto_rec2)

lemma set_range_desc [simp]: "set (py_range_desc hi lo) = {lo<..hi}"
  by (auto simp: py_range_desc_def)

lemma distinct_range_desc [simp]: "distinct (py_range_desc hi lo)"
  by (simp add: py_range_desc_def)

text \<open>
  A \<open>for r in range(hi, lo, -1): if P(r): \<dots> break\<close> loop is \<open>find\<close> on the
  range, and it finds the greatest \<open>r\<close> of the range with \<open>P r\<close>.
\<close>

lemma find_range_desc_Some:
  "find P (py_range_desc hi lo) = Some r \<longleftrightarrow>
     lo < r \<and> r \<le> hi \<and> P r \<and> (\<forall>x. r < x \<and> x \<le> hi \<longrightarrow> \<not> P x)"
proof (induction "nat (hi - lo)" arbitrary: hi)
  case 0
  then show ?case by (simp add: range_desc_rec [of hi lo])
next
  case (Suc n)
  then have lt: "lo < hi" and n: "n = nat (hi - 1 - lo)" by arith+
  show ?case
  proof (cases "P hi")
    case True
    with lt show ?thesis by (auto simp: range_desc_rec [of hi lo] le_less)
  next
    case False
    with lt have "find P (py_range_desc hi lo) = find P (py_range_desc (hi - 1) lo)"
      by (simp add: range_desc_rec [of hi lo])
    moreover have "(\<forall>x. r < x \<and> x \<le> hi \<longrightarrow> \<not> P x) \<longleftrightarrow>
        (\<forall>x. r < x \<and> x \<le> hi - 1 \<longrightarrow> \<not> P x) \<and> (r < hi \<longrightarrow> \<not> P hi)"
      by (auto, metis order.order_iff_strict)
    moreover have "P r \<Longrightarrow> r \<le> hi - 1 \<longleftrightarrow> r \<le> hi"
      using False by (cases "r = hi") auto
    ultimately show ?thesis using Suc.hyps(1) [OF n] False by auto
  qed
qed

lemma find_range_desc_None:
  "find P (py_range_desc hi lo) = None \<longleftrightarrow> (\<forall>x. lo < x \<and> x \<le> hi \<longrightarrow> \<not> P x)"
  by (auto simp: find_None_iff)

subsection \<open>\<open>collections.Counter\<close>\<close>

type_synonym 'a counter = "('a \<times> nat) list"

text \<open>\<open>c.get(k, 0)\<close>\<close>

definition counter_get :: "'a counter \<Rightarrow> 'a \<Rightarrow> nat" where
  "counter_get c k = (case map_of c k of None \<Rightarrow> 0 | Some n \<Rightarrow> n)"

text \<open>\<open>c[x] = c.get(x, 0) + 1\<close>: an existing key keeps its place, a new one is appended.\<close>

definition counter_add :: "'a counter \<Rightarrow> 'a \<Rightarrow> 'a counter" where
  "counter_add c x = AList.update x (Suc (counter_get c x)) c"

text \<open>\<open>Counter(xs)\<close>\<close>

definition counter :: "'a list \<Rightarrow> 'a counter" where
  "counter xs = fold (\<lambda>x c. counter_add c x) xs []"

declare counter_get_def [eval_defs] counter_add_def [eval_defs] counter_def [eval_defs]

lemma counter_get_add:
  "counter_get (counter_add c x) k = (if k = x then Suc (counter_get c x) else counter_get c k)"
  by (simp add: counter_get_def counter_add_def update_conv')

lemma counter_get_fold:
  "counter_get (fold (\<lambda>x c. counter_add c x) xs c) k = counter_get c k + count_list xs k"
  by (induction xs arbitrary: c) (simp_all add: counter_get_add)

lemma counter_get_counter [simp]: "counter_get (counter xs) k = count_list xs k"
  unfolding counter_def using counter_get_fold [of xs "[]" k] by (simp add: counter_get_def)

lemma counter_fold_distinct:
  "distinct (map fst c) \<Longrightarrow> distinct (map fst (fold (\<lambda>x c. counter_add c x) xs c))"
  by (induction xs arbitrary: c) (simp_all add: counter_add_def distinct_update)

lemma counter_fold_keys:
  "fst ` set (fold (\<lambda>x c. counter_add c x) xs c) = fst ` set c \<union> set xs"
  by (induction xs arbitrary: c) (auto simp: counter_add_def dom_update)

lemma distinct_counter [simp]: "distinct (map fst (counter xs))"
  by (simp add: counter_def counter_fold_distinct)

lemma counter_keys [simp]: "fst ` set (counter xs) = set xs"
  by (simp add: counter_def counter_fold_keys)

text \<open>What \<open>c.items()\<close> yields: each element of \<open>xs\<close> once, with its number of occurrences.\<close>

lemma counter_items:
  "(k, n) \<in> set (counter xs) \<longleftrightarrow> k \<in> set xs \<and> n = count_list xs k"
proof
  assume kn: "(k, n) \<in> set (counter xs)"
  then have "map_of (counter xs) k = Some n"
    by simp
  then have "n = count_list xs k"
    using counter_get_counter [of xs k] by (simp add: counter_get_def)
  moreover from kn have "k \<in> set xs"
    using counter_keys [of xs] by (metis fst_conv image_eqI)
  ultimately show "k \<in> set xs \<and> n = count_list xs k" by simp
next
  assume kn: "k \<in> set xs \<and> n = count_list xs k"
  then have "k \<in> fst ` set (counter xs)" by simp
  then obtain m where "(k, m) \<in> set (counter xs)" by force
  moreover from kn have "n = count_list xs k" by simp
  moreover from calculation(1) have "map_of (counter xs) k = Some m"
    by simp
  ultimately show "(k, n) \<in> set (counter xs)"
    using counter_get_counter [of xs k] by (simp add: counter_get_def)
qed

subsection \<open>Properties of the Counter model\<close>

text \<open>\<open>Counter(xs)\<close> is a dictionary with one entry per distinct element of
  \<open>xs\<close>, mapping it to its number of occurrences; \<open>c.get(k, 0)\<close> reads the count of
  any \<open>k\<close>, 0 for an absent one.\<close>

theorem counter_roundtrip:
  "distinct (map fst (counter xs)) \<and>
   map_of (counter xs) = (\<lambda>k. if k \<in> set xs then Some (count_list xs k) else None) \<and>
   counter_get (counter xs) k = count_list xs k"
proof -
  have "map_of (counter xs) k' = (if k' \<in> set xs then Some (count_list xs k') else None)" for k'
  proof (cases "k' \<in> set xs")
    case True
    then have "(k', count_list xs k') \<in> set (counter xs)" by (simp add: counter_items)
    then show ?thesis using True by simp
  next
    case False
    then have "k' \<notin> fst ` set (counter xs)" by simp
    then show ?thesis using False by (simp add: map_of_eq_None_iff)
  qed
  then show ?thesis by auto
qed

end
