(* ===== verification/PyCompare.thy ===== *)
theory PyCompare
  imports Prelude
begin

text \<open>
  Python's ordering of the values that \<open>evaluate\<close> returns. A score is a tuple
  \<open>(hand_rank, main_cards)\<close>; \<open>main_cards\<close> is a list that may hold \<open>int\<close>s and,
  in the flush branch, \<open>str\<close>s. \<open>p_score > d_score\<close> (src/poker.py, lines 282
  and 286) is CPython's rich comparison: tuples and lists are compared at the first
  index where the elements differ under \<open>==\<close> (which never raises), and only that
  pair is compared with \<open><\<close>; comparing an \<open>int\<close> with a \<open>str\<close> raises
  \<open>TypeError\<close>. When one list is a prefix of the other, the shorter is smaller.
  \<open>x > y\<close> runs the same algorithm as \<open>y < x\<close>, so one function covers both.
  Strings compare by code point (\<open>List_Lexorder\<close> over \<open>Char_ord\<close>).
\<close>

datatype pyval = PInt int | PStr string

type_synonym score = "int \<times> pyval list"

fun py_lt :: "pyval \<Rightarrow> pyval \<Rightarrow> py_error + bool" where
  "py_lt (PInt a) (PInt b) = Inr (a < b)"
| "py_lt (PStr a) (PStr b) = Inr (a < b)"
| "py_lt (PInt a) (PStr b) = Inl TypeError"
| "py_lt (PStr a) (PInt b) = Inl TypeError"

fun list_lt :: "pyval list \<Rightarrow> pyval list \<Rightarrow> py_error + bool" where
  "list_lt [] ys = Inr (ys \<noteq> [])"
| "list_lt (x # xs) [] = Inr False"
| "list_lt (x # xs) (y # ys) = (if x = y then list_lt xs ys else py_lt x y)"

text \<open>
  A two-element tuple: the categories are compared first; equal categories pass to the
  lists, and equal lists leave the tuples equal (\<open><\<close> is false).
\<close>

fun score_lt :: "score \<Rightarrow> score \<Rightarrow> py_error + bool" where
  "score_lt (a, xs) (b, ys) =
     (if a \<noteq> b then Inr (a < b) else if xs \<noteq> ys then list_lt xs ys else Inr False)"

subsection \<open>Properties of the comparison\<close>

lemma list_lt_refl [simp]: "list_lt xs xs = Inr False"
  by (induction xs) simp_all

lemma list_lt_Nil_right [simp]: "list_lt xs [] = Inr False"
  by (cases xs) simp_all

lemma score_lt_refl [simp]: "score_lt p p = Inr False"
  by (cases p) simp

lemma py_lt_error: "py_lt x y = Inl e \<Longrightarrow> e = TypeError"
  by (cases x; cases y) simp_all

lemma list_lt_error: "list_lt xs ys = Inl e \<Longrightarrow> e = TypeError"
  by (induction xs ys rule: list_lt.induct) (auto split: if_splits dest: py_lt_error)

lemma py_lt_swap_error: "py_lt x y = Inl e \<longleftrightarrow> py_lt y x = Inl e"
  by (cases x; cases y) simp_all

lemma py_lt_asym: "py_lt x y = Inr True \<Longrightarrow> py_lt y x = Inr False"
  by (cases x; cases y) auto

lemma py_lt_total: "x \<noteq> y \<Longrightarrow> py_lt x y = Inr False \<Longrightarrow> py_lt y x = Inr True"
  by (cases x; cases y) auto

text \<open>Raising does not depend on the direction of the comparison.\<close>

lemma list_lt_swap_error: "list_lt xs ys = Inl e \<longleftrightarrow> list_lt ys xs = Inl e"
  by (induction xs ys rule: list_lt.induct) (auto simp: py_lt_swap_error)

lemma list_lt_asym: "list_lt xs ys = Inr True \<Longrightarrow> list_lt ys xs = Inr False"
  by (induction xs ys rule: list_lt.induct) (auto split: if_splits intro: py_lt_asym)

lemma list_lt_total:
  "xs \<noteq> ys \<Longrightarrow> list_lt xs ys = Inr False \<Longrightarrow> list_lt ys xs = Inr True"
  by (induction xs ys rule: list_lt.induct) (auto split: if_splits intro: py_lt_total)

lemma score_lt_swap_error: "score_lt p d = Inl e \<longleftrightarrow> score_lt d p = Inl e"
  by (cases p; cases d) (auto simp: list_lt_swap_error)

lemma score_lt_asym: "score_lt p d = Inr True \<Longrightarrow> score_lt d p = Inr False"
  by (cases p; cases d) (auto split: if_splits intro: list_lt_asym)

lemma score_lt_total:
  "p \<noteq> d \<Longrightarrow> score_lt p d = Inr False \<Longrightarrow> score_lt d p = Inr True"
  by (cases p; cases d) (auto split: if_splits intro: list_lt_total)

subsection \<open>Integer-only scores: the lexicographic order\<close>

text \<open>
  On lists of \<open>int\<close>s Python's comparison never raises and is the lexicographic
  order of \<open>List_Lexorder\<close>; on \<open>(int, [int])\<close> tuples it is the lexicographic
  product order of \<open>Product_Lexorder\<close>.
\<close>

lemma map_PInt_eq [simp]: "map PInt xs = map PInt ys \<longleftrightarrow> xs = ys"
  by (simp add: inj_def inj_map_eq_map)

lemma list_lt_ints: "list_lt (map PInt xs) (map PInt ys) = Inr (xs < ys)"
proof (induction xs arbitrary: ys)
  case Nil
  then show ?case by (cases ys) simp_all
next
  case (Cons x xs)
  then show ?case by (cases ys) auto
qed

lemma score_lt_ints:
  "score_lt (a, map PInt xs) (b, map PInt ys) = Inr ((a, xs) < (b, ys))"
  by (auto simp: list_lt_ints)

end
