(* ===== verification/Cards.thy ===== *)
theory Cards
  imports Prelude
begin

text \<open>
  The cards of src/poker.py. A card is the tuple \<open>(face, suit)\<close> with \<open>face\<close>
  one of the strings of \<open>RANK_ORDER\<close> and \<open>suit\<close> one of \<open>SUITS\<close>, or the
  tuple \<open>("JOKER", None)\<close>. Faces and suits are datatypes here; \<open>face_str\<close>
  gives back the string the code stores, because the code compares and sorts those
  strings (\<open>c[0]\<close> is \<open>card_head\<close>). \<open>create_deck\<close> returns a shuffled deck:
  \<open>random.shuffle\<close> is modelled by its specification, any permutation of the
  ordered deck.
\<close>

datatype suit = Heart | Diamond | Spade | Club

text \<open>\<open>SUITS = [HEART, DIAMOND, SPADE, CLUB]\<close>\<close>

definition SUITS :: "suit list" where
  "SUITS = [Heart, Diamond, Spade, Club]"

datatype face = Two | Three | Four | Five | Six | Seven | Eight | Nine | Ten
  | Jack | Queen | King | Ace

definition RANK_ORDER :: "face list" where
  "RANK_ORDER = [Two, Three, Four, Five, Six, Seven, Eight, Nine, Ten, Jack, Queen, King, Ace]"

primrec face_str :: "face \<Rightarrow> string" where
  "face_str Two = ''2''" | "face_str Three = ''3''" | "face_str Four = ''4''"
| "face_str Five = ''5''" | "face_str Six = ''6''" | "face_str Seven = ''7''"
| "face_str Eight = ''8''" | "face_str Nine = ''9''" | "face_str Ten = ''10''"
| "face_str Jack = ''J''" | "face_str Queen = ''Q''" | "face_str King = ''K''"
| "face_str Ace = ''A''"

datatype card = Card face suit | Joker

text \<open>\<open>c[0]\<close>: the face string, or \<open>"JOKER"\<close>.\<close>

primrec card_head :: "card \<Rightarrow> string" where
  "card_head (Card f s) = face_str f"
| "card_head Joker = ''JOKER''"

text \<open>\<open>create_deck()\<close> before the shuffle: every face with every suit, then two jokers.\<close>

definition deck_order :: "card list" where
  "deck_order = [Card r s. r \<leftarrow> RANK_ORDER, s \<leftarrow> SUITS] @ [Joker, Joker]"

text \<open>\<open>d\<close> is a possible result of \<open>create_deck()\<close>.\<close>

definition create_deck :: "card list \<Rightarrow> bool" where
  "create_deck d \<longleftrightarrow> mset d = mset deck_order"

subsection \<open>Rank values\<close>

text \<open>\<open>int(face)\<close> on a string of decimal digits.\<close>

definition decimal_value :: "string \<Rightarrow> int" where
  "decimal_value s = foldl (\<lambda>n c. 10 * n + (int (of_char c) - 48)) 0 s"

text \<open>The \<open>if\<close>/\<open>elif\<close> chain of \<open>evaluate\<close> that turns \<open>c[0]\<close> into a number.\<close>

definition rank_value :: "string \<Rightarrow> int" where
  "rank_value fc =
     (if fc = ''A'' then 14 else if fc = ''K'' then 13 else if fc = ''Q'' then 12
      else if fc = ''J'' then 11 else decimal_value fc)"

abbreviation face_value :: "face \<Rightarrow> int" where
  "face_value f \<equiv> rank_value (face_str f)"

declare SUITS_def [eval_defs] RANK_ORDER_def [eval_defs] deck_order_def [eval_defs]
  rank_value_def [eval_defs] decimal_value_def [eval_defs] create_deck_def [eval_defs]

lemma rank_value_simps [simp]:
  "rank_value ''2'' = 2" "rank_value ''3'' = 3" "rank_value ''4'' = 4" "rank_value ''5'' = 5"
  "rank_value ''6'' = 6" "rank_value ''7'' = 7" "rank_value ''8'' = 8" "rank_value ''9'' = 9"
  "rank_value ''10'' = 10" "rank_value ''J'' = 11" "rank_value ''Q'' = 12"
  "rank_value ''K'' = 13" "rank_value ''A'' = 14"
  by (simp_all add: rank_value_def decimal_value_def)

lemma face_value_range: "2 \<le> face_value f \<and> face_value f \<le> 14"
  by (cases f) simp_all

lemma face_value_inj: "face_value f = face_value g \<longleftrightarrow> f = g"
  by (cases f; cases g) simp_all

text \<open>The inverse of \<open>face_value\<close> on \<open>2..14\<close>.\<close>

definition face_of_value :: "int \<Rightarrow> face" where
  "face_of_value v = RANK_ORDER ! nat (v - 2)"

lemma face_of_value_face_value [simp]: "face_of_value (face_value f) = f"
  by (cases f) (simp_all add: face_of_value_def RANK_ORDER_def)

lemma face_value_face_of_value:
  assumes "2 \<le> v" and "v \<le> 14"
  shows "face_value (face_of_value v) = v"
proof -
  from assms have "v \<in> set [2..14::int]"
    by (simp only: set_upto atLeastAtMost_iff)
  then show ?thesis by (auto simp: face_of_value_def RANK_ORDER_def upto_rec1)
qed

lemma face_str_ne_joker [simp]: "face_str f \<noteq> ''JOKER''"
  by (cases f) simp_all

lemma face_str_inj [simp]: "face_str f = face_str g \<longleftrightarrow> f = g"
  by (cases f; cases g) simp_all

subsection \<open>The deck\<close>

lemma count_deck_order_joker: "count (mset deck_order) Joker = 2"
  by (simp add: deck_order_def RANK_ORDER_def SUITS_def)

lemma count_deck_order_card: "count (mset deck_order) (Card f s) = 1"
  by (cases f; cases s) (simp_all add: deck_order_def RANK_ORDER_def SUITS_def)

lemma length_deck_order: "length deck_order = 54"
  by (simp add: deck_order_def RANK_ORDER_def SUITS_def)

subsection \<open>Properties of the deck\<close>

text \<open>C12. Any cards drawn from a deck returned by \<open>create_deck()\<close> hold at most two
  jokers: the joker bound the evaluator's design relies on is enforced by the deck.\<close>

theorem deck_joker_bound:
  assumes "create_deck d" and "mset h \<subseteq># mset d"
  shows "count_list h Joker \<le> 2"
proof -
  have "count (mset h) Joker \<le> count (mset d) Joker"
    using assms(2) by (rule mset_subset_eq_count)
  also have "\<dots> = 2" using assms(1) by (simp add: create_deck_def count_deck_order_joker)
  finally show ?thesis by (simp add: count_mset)
qed

theorem deck_joker_bound_witness:
  "create_deck deck_order \<and> mset (drop 49 deck_order) \<subseteq># mset deck_order \<and>
   count_list (drop 49 deck_order) Joker \<le> 2"
proof -
  have d: "create_deck deck_order" by (simp add: create_deck_def)
  have s: "mset (drop 49 deck_order) \<subseteq># mset deck_order"
    by (metis append_take_drop_id mset_append mset_subset_eq_add_right)
  show ?thesis using deck_joker_bound [OF d s] d s by simp
qed

end
