(* ===== verification/Evaluator.thy ===== *)
theory Evaluator
  imports PyCompare Cards
begin

text \<open>
  \<open>evaluate(hand)\<close> of src/poker.py (lines 89--191) and its parts, in the order of the
  code: the jokers and the standard cards of the hand, their numeric ranks, the rank
  counter, the flush suit, the best straight, and then the ladder of categories from
  straight flush (8) down to high card (0), the first that applies being returned. Each
  loop with \<open>break\<close> or \<open>return\<close> over \<open>range(14, lo, -1)\<close> is a \<open>find\<close> on
  \<open>py_range_desc\<close>; the full-house loop without \<open>break\<close> is a \<open>fold\<close>; the
  flush padding \<open>while\<close> loop is a terminating recursive function. The function is
  total: it never raises on any list of cards, of any length.

  The lemmas characterise every part (what each loop finds), the shape of the result,
  where comparing two results can raise, and that the result depends only on the
  multiset of a five-card hand.
\<close>

text \<open>\<open>HAND_NAMES\<close> (lines 84--87): the display name of each category.\<close>

definition HAND_NAMES :: "string list" where
  "HAND_NAMES = [''High Card'', ''One Pair'', ''Two Pair'', ''Three of a Kind'',
     ''Straight'', ''Flush'', ''Full House'', ''Four of a Kind'', ''Straight Flush'']"

text \<open>\<open>jokers = [c for c in hand if c[0]=="JOKER"]\<close> (line 94).\<close>

definition jokers :: "card list \<Rightarrow> card list" where
  "jokers hand = [c \<leftarrow> hand. card_head c = ''JOKER'']"

text \<open>\<open>normal = [c for c in hand if c[0]!="JOKER"]\<close> (line 95), as \<open>(face, suit)\<close> pairs.\<close>

definition normal_cards :: "card list \<Rightarrow> (face \<times> suit) list" where
  "normal_cards hand = [(f, s). Card f s \<leftarrow> hand]"

text \<open>\<open>ranks\<close> (lines 97--110): \<open>rank_value\<close> of each \<open>c[0]\<close>; \<open>suits\<close> is
  \<open>map snd\<close> of the standard cards.\<close>

definition hand_ranks :: "(face \<times> suit) list \<Rightarrow> int list" where
  "hand_ranks normal = map (\<lambda>(f, s). rank_value (face_str f)) normal"

text \<open>Lines 116--121: the first item of \<open>suit_counts\<close>, in insertion order, whose count
  plus the jokers reaches five.\<close>

definition flush_suit :: "suit counter \<Rightarrow> nat \<Rightarrow> suit option" where
  "flush_suit suit_counts num_jokers =
     map_option fst (find (\<lambda>(s, qty). 5 \<le> qty + num_jokers) suit_counts)"

text \<open>Lines 126--130: the values \<open>start, start - 1, \<dots>, start - 4\<close> not in \<open>ranks\<close>.\<close>

definition straight_needed :: "int list \<Rightarrow> int \<Rightarrow> int list" where
  "straight_needed ranks start = filter (\<lambda>r. r \<notin> set ranks) (map (\<lambda>i. start - int i) [0..<5])"

text \<open>Lines 124--133: \<open>best_straight\<close>, 0 when no window of \<open>range(14, 4, -1)\<close> can
  be filled with the jokers.\<close>

definition best_straight :: "int list \<Rightarrow> nat \<Rightarrow> int" where
  "best_straight ranks num_jokers =
     (case find (\<lambda>start. length (straight_needed ranks start) \<le> num_jokers) (py_range_desc 14 4) of
        None \<Rightarrow> 0 | Some start \<Rightarrow> start)"

text \<open>Lines 140--142.\<close>

definition four_kind :: "int counter \<Rightarrow> nat \<Rightarrow> int option" where
  "four_kind rank_counts num_jokers =
     find (\<lambda>r. 4 \<le> counter_get rank_counts r + num_jokers) (py_range_desc 14 1)"

text \<open>Lines 145--149: the loop has no \<open>break\<close>; \<open>not three\<close> is Python truthiness of
  \<open>None\<close> or an \<open>int\<close>.\<close>

definition full_three :: "int counter \<Rightarrow> nat \<Rightarrow> int option" where
  "full_three rank_counts num_jokers =
     fold (\<lambda>r three. if 3 \<le> counter_get rank_counts r + num_jokers \<and> (three = None \<or> three = Some 0)
                     then Some r else three)
       (py_range_desc 14 1) None"

text \<open>Lines 150--157: the pair may only use the jokers the three did not need.\<close>

definition full_house :: "int counter \<Rightarrow> nat \<Rightarrow> (int \<times> int) option" where
  "full_house rank_counts num_jokers =
     (case full_three rank_counts num_jokers of None \<Rightarrow> None
      | Some three \<Rightarrow>
          (let remaining_jokers =
                 int num_jokers - max 0 (3 - int (counter_get rank_counts three))
           in map_option (\<lambda>pair. (three, pair))
                (find (\<lambda>r. r \<noteq> three \<and> 2 \<le> int (counter_get rank_counts r) + remaining_jokers)
                   (py_range_desc 14 1))))"

text \<open>Lines 162--163: \<open>while len(sorted_flush) < 5: sorted_flush.append(14)\<close>.\<close>

function pad_flush :: "pyval list \<Rightarrow> pyval list" where
  "pad_flush xs = (if length xs < 5 then pad_flush (xs @ [PInt 14]) else xs)"
  by pat_completeness auto
termination
  by (relation "measure (\<lambda>xs. 5 - length xs)") auto

declare pad_flush.simps [simp del]

text \<open>Lines 161--164. \<open>r\<close> in \<open>[r for r,s in normal if s==flush_suit]\<close> is the face
  \<^emph>\<open>string\<close> \<open>c[0]\<close>, so the list is sorted as strings, by code point, and
  \<open>reverse=True\<close> makes it descending (equal strings are identical, so stability does not
  matter).\<close>

definition flush_tiebreak :: "(face \<times> suit) list \<Rightarrow> suit \<Rightarrow> pyval list" where
  "flush_tiebreak normal fs =
     take 5 (pad_flush (map PStr (rev (sort [face_str f. (f, s) \<leftarrow> normal, s = fs]))))"

text \<open>Lines 171--173.\<close>

definition three_kind :: "int counter \<Rightarrow> nat \<Rightarrow> int option" where
  "three_kind rank_counts num_jokers =
     find (\<lambda>r. 3 \<le> counter_get rank_counts r + num_jokers) (py_range_desc 14 1)"

text \<open>Lines 176--179: the ranks held at least twice, highest first; jokers do not count.\<close>

definition pair_ranks :: "int counter \<Rightarrow> int list" where
  "pair_ranks rank_counts = filter (\<lambda>r. 2 \<le> counter_get rank_counts r) (py_range_desc 14 1)"

text \<open>The whole of \<open>evaluate\<close>, branch by branch.\<close>

definition evaluate :: "card list \<Rightarrow> score" where
  "evaluate hand =
     (let normal = normal_cards hand;
          ranks = hand_ranks normal;
          suits = map snd normal;
          rank_counts = counter ranks;
          num_jokers = length (jokers hand);
          fs = flush_suit (counter suits) num_jokers;
          bs = best_straight ranks num_jokers;
          is_straight = 0 < bs;
          is_flush = fs \<noteq> None
      in if is_straight \<and> is_flush then (8, [PInt bs])
      else case four_kind rank_counts num_jokers of Some r \<Rightarrow> (7, [PInt r]) | None \<Rightarrow>
      (case full_house rank_counts num_jokers of Some (three, pair) \<Rightarrow> (6, [PInt three, PInt pair])
       | None \<Rightarrow>
      (case fs of Some s \<Rightarrow> (5, flush_tiebreak normal s) | None \<Rightarrow>
      if is_straight then (4, [PInt bs]) else
      (case three_kind rank_counts num_jokers of Some r \<Rightarrow> (3, [PInt r]) | None \<Rightarrow>
      (let pairs = pair_ranks rank_counts
       in if 2 \<le> length pairs then (2, [PInt (pairs ! 0)])
          else if length pairs = 1 then (1, [PInt (pairs ! 0)])
          else if ranks \<noteq> [] then (0, [PInt (Max (set ranks))])
          else (0, [PInt 0]))))))"

text \<open>The shape of a score as \<open>evaluate\<close> builds it: a category in \<open>0..8\<close> (an
  index of \<open>HAND_NAMES\<close>); the flush tiebreak has five entries; every other tiebreak
  is a non-empty list of \<open>int\<close>s in \<open>0..14\<close>.\<close>

fun tiebreak_int :: "pyval \<Rightarrow> bool" where
  "tiebreak_int (PInt x) = (0 \<le> x \<and> x \<le> 14)"
| "tiebreak_int (PStr s) = False"

definition score_shape :: "score \<Rightarrow> bool" where
  "score_shape sc \<longleftrightarrow> 0 \<le> fst sc \<and> fst sc \<le> 8 \<and>
     (if fst sc = 5 then length (snd sc) = 5
      else snd sc \<noteq> [] \<and> list_all tiebreak_int (snd sc))"

declare evaluate_def [eval_defs] jokers_def [eval_defs] normal_cards_def [eval_defs]
  hand_ranks_def [eval_defs] flush_suit_def [eval_defs] straight_needed_def [eval_defs]
  best_straight_def [eval_defs] four_kind_def [eval_defs] full_three_def [eval_defs]
  full_house_def [eval_defs] flush_tiebreak_def [eval_defs] three_kind_def [eval_defs]
  pair_ranks_def [eval_defs] pad_flush.simps [eval_defs] HAND_NAMES_def [eval_defs]

subsection \<open>The parts of a hand\<close>

lemma normal_cards_simps [simp]:
  "normal_cards [] = []"
  "normal_cards (Card f s # h) = (f, s) # normal_cards h"
  "normal_cards (Joker # h) = normal_cards h"
  by (simp_all add: normal_cards_def)

lemma jokers_simps [simp]:
  "jokers [] = []"
  "jokers (Card f s # h) = jokers h"
  "jokers (Joker # h) = Joker # jokers h"
  by (simp_all add: jokers_def)

lemma length_jokers: "length (jokers h) = count_list h Joker"
proof (induction h)
  case (Cons c h)
  then show ?case by (cases c) simp_all
qed simp

lemma length_normal_cards: "length (normal_cards h) + length (jokers h) = length h"
proof (induction h)
  case (Cons c h)
  then show ?case by (cases c) simp_all
qed simp

lemma length_hand_ranks [simp]: "length (hand_ranks normal) = length normal"
  by (simp add: hand_ranks_def)

lemma hand_ranks_range: "r \<in> set (hand_ranks normal) \<Longrightarrow> 2 \<le> r \<and> r \<le> 14"
  unfolding hand_ranks_def using face_value_range by auto

lemma one_notin_hand_ranks [simp]: "1 \<notin> set (hand_ranks normal)"
  using hand_ranks_range by fastforce

subsection \<open>Straights\<close>

lemma range_desc_14_4: "py_range_desc 14 4 = py_range_desc 14 5 @ [5]"
  by (simp add: py_range_desc_def)

text \<open>The window topped by 5 contains 1, which no card has, so it never needs fewer
  jokers than the window topped by 6.\<close>

lemma straight_needed_6_5:
  "1 \<notin> set ranks \<Longrightarrow> length (straight_needed ranks 6) \<le> length (straight_needed ranks 5)"
  by (simp add: straight_needed_def upt_rec)

lemma best_straight_from_six_gen:
  assumes "1 \<notin> set ranks"
  shows "best_straight ranks nj =
    (case find (\<lambda>st. length (straight_needed ranks st) \<le> nj) (py_range_desc 14 5) of
       None \<Rightarrow> 0 | Some st \<Rightarrow> st)"
proof (cases "find (\<lambda>st. length (straight_needed ranks st) \<le> nj) (py_range_desc 14 5)")
  case None
  then have all: "\<forall>x. 5 < x \<and> x \<le> 14 \<longrightarrow> \<not> length (straight_needed ranks x) \<le> nj"
    by (simp only: find_range_desc_None)
  have "\<not> length (straight_needed ranks 6) \<le> nj" using all [rule_format, of 6] by simp
  with straight_needed_6_5 [OF assms] have "\<not> length (straight_needed ranks 5) \<le> nj"
    by linarith
  with None show ?thesis by (simp add: best_straight_def range_desc_14_4 find_append)
next
  case (Some st)
  then show ?thesis by (simp add: best_straight_def range_desc_14_4 find_append)
qed

lemma best_straight_range:
  "1 \<notin> set ranks \<Longrightarrow>
     best_straight ranks nj = 0 \<or> (6 \<le> best_straight ranks nj \<and> best_straight ranks nj \<le> 14)"
  by (auto simp: best_straight_from_six_gen split: option.split dest!: find_SomeD)

subsection \<open>Flushes\<close>

lemma count_list_length_all: "count_list xs x = length xs \<Longrightarrow> y \<in> set xs \<Longrightarrow> y = x"
proof (induction xs)
  case (Cons a xs)
  then show ?case using count_le_length [of xs x] by (auto split: if_splits)
qed simp

lemma flush_suit_SomeD:
  "flush_suit (counter suits) nj = Some s \<Longrightarrow> s \<in> set suits \<and> 5 \<le> count_list suits s + nj"
  by (auto simp: flush_suit_def counter_items dest!: find_SomeD)

text \<open>With five cards, a flush suit found with jokers is the suit of every standard card.\<close>

lemma flush_suit_one_suit:
  assumes "length suits + nj = 5" and "flush_suit (counter suits) nj = Some s"
    and "x \<in> set suits"
  shows "x = s"
proof -
  from assms(2) have "5 \<le> count_list suits s + nj" by (rule flush_suit_SomeD [THEN conjunct2])
  with assms(1) count_le_length [of suits s] have "count_list suits s = length suits" by linarith
  then show ?thesis using assms(3) by (rule count_list_length_all)
qed

lemma counter_fold_replicate:
  "fold (\<lambda>x c. counter_add c x) (replicate n s) [(s, m)] = [(s, m + n)]"
  by (induction n arbitrary: m) (simp_all add: counter_add_def counter_get_def)

lemma counter_replicate: "counter (replicate (Suc n) s) = [(s, Suc n)]"
  using counter_fold_replicate [of n s 1]
  by (simp add: counter_def counter_add_def counter_get_def)

lemma flush_suit_all_same:
  assumes "suits \<noteq> []" and "\<forall>x\<in>set suits. x = s" and "5 \<le> length suits + nj"
  shows "flush_suit (counter suits) nj = Some s"
proof -
  from assms(1) obtain n where n: "length suits = Suc n" by (cases suits) auto
  from assms(2) have "suits = replicate (length suits) s" by (simp add: replicate_length_same)
  with n have "counter suits = [(s, Suc n)]" by (metis counter_replicate)
  with assms(3) n show ?thesis by (simp add: flush_suit_def)
qed

subsection \<open>Sets and full houses\<close>

lemma full_three_fold_keep:
  "t \<noteq> 0 \<Longrightarrow>
   fold (\<lambda>r three. if P r \<and> (three = None \<or> three = Some 0) then Some r else three) xs (Some t) =
   Some t"
  by (induction xs) simp_all

lemma full_three_fold_find:
  "0 \<notin> set xs \<Longrightarrow>
   fold (\<lambda>r three. if P r \<and> (three = None \<or> three = Some 0) then Some r else three) xs None =
   find P xs"
  by (induction xs) (simp_all add: full_three_fold_keep)

text \<open>The loop without \<open>break\<close> that keeps the first rank (\<open>and not three\<close>) finds
  what the three-of-a-kind loop with \<open>break\<close> finds.\<close>

lemma full_three_eq_three_kind: "full_three c nj = three_kind c nj"
  by (simp add: full_three_def three_kind_def full_three_fold_find)

lemma full_house_SomeE:
  assumes "full_house c nj = Some (t, p)"
  obtains "three_kind c nj = Some t"
    and "find (\<lambda>r. r \<noteq> t \<and>
            2 \<le> int (counter_get c r) + (int nj - max 0 (3 - int (counter_get c t))))
          (py_range_desc 14 1) = Some p"
  using assms by (auto simp: full_house_def full_three_eq_three_kind Let_def split: option.splits)

subsection \<open>The flush tiebreak\<close>

lemma pad_flush_eq: "pad_flush xs = xs @ replicate (5 - length xs) (PInt 14)"
proof (induction xs rule: pad_flush.induct)
  case (1 xs)
  show ?case
  proof (cases "length xs < 5")
    case True
    then obtain k where k: "5 - length xs = Suc k" and k': "5 - Suc (length xs) = k"
      by (metis Suc_diff_Suc diff_Suc_Suc)
    from True "1.IH" have "pad_flush (xs @ [PInt 14]) =
        (xs @ [PInt 14]) @ replicate (5 - Suc (length xs)) (PInt 14)" by simp
    with True k k' show ?thesis by (simp add: pad_flush.simps [of xs] replicate_append_same)
  next
    case False
    then show ?thesis by (simp add: pad_flush.simps [of xs])
  qed
qed

lemma length_flush_tiebreak [simp]: "length (flush_tiebreak normal s) = 5"
  by (simp add: flush_tiebreak_def pad_flush_eq)

subsection \<open>The shape of a score\<close>

lemma find_range_desc_bound: "find P (py_range_desc hi lo) = Some r \<Longrightarrow> lo < r \<and> r \<le> hi"
  by (simp add: find_range_desc_Some)

lemma four_kind_range: "four_kind c nj = Some r \<Longrightarrow> 1 < r \<and> r \<le> 14"
  unfolding four_kind_def by (rule find_range_desc_bound)

lemma three_kind_range: "three_kind c nj = Some r \<Longrightarrow> 1 < r \<and> r \<le> 14"
  unfolding three_kind_def by (rule find_range_desc_bound)

lemma full_house_range:
  assumes "full_house c nj = Some (t, p)"
  shows "1 < t \<and> t \<le> 14 \<and> 1 < p \<and> p \<le> 14"
  using assms by (rule full_house_SomeE) (auto dest: three_kind_range find_range_desc_bound)

lemma pair_ranks_range: "r \<in> set (pair_ranks c) \<Longrightarrow> 1 < r \<and> r \<le> 14"
  by (simp add: pair_ranks_def)

lemma Max_hand_ranks_range:
  assumes "hand_ranks normal \<noteq> []"
  shows "2 \<le> Max (set (hand_ranks normal)) \<and> Max (set (hand_ranks normal)) \<le> 14"
proof -
  from assms have "Max (set (hand_ranks normal)) \<in> set (hand_ranks normal)"
    by (intro Max_in) simp_all
  then show ?thesis by (rule hand_ranks_range)
qed

lemma int_tiebreak_ints: "list_all tiebreak_int xs \<Longrightarrow> \<exists>ys. xs = map PInt ys"
proof (induction xs)
  case (Cons x xs)
  then show ?case by (cases x) (auto intro: exI [of _ "_ # _"])
qed simp

text \<open>Two well-shaped scores compare without error unless both are flushes.\<close>

lemma score_lt_shape_error:
  assumes "score_shape p" and "score_shape d" and "score_lt p d = Inl e"
  shows "fst p = 5 \<and> fst d = 5"
proof (cases p, cases d)
  fix a xs b ys
  assume p: "p = (a, xs)" and d: "d = (b, ys)"
  from assms(3) p d have ab: "a = b" by (auto split: if_splits)
  show ?thesis
  proof (rule ccontr)
    assume "\<not> (fst p = 5 \<and> fst d = 5)"
    with ab p d have "a \<noteq> 5" by simp
    with assms(1,2) p d ab obtain xs' ys' where "xs = map PInt xs'" and "ys = map PInt ys'"
      by (auto simp: score_shape_def dest!: int_tiebreak_ints)
    with assms(3) p d show False by (simp only: score_lt_ints) simp
  qed
qed



lemma tiebreak_int_find_range:
  "find P (py_range_desc 14 lo) = Some r \<Longrightarrow> 0 \<le> lo \<Longrightarrow> tiebreak_int (PInt r)"
  by (auto dest: find_range_desc_bound)

lemma tiebreak_int_pair:
  assumes "0 < length (pair_ranks c)"
  shows "tiebreak_int (PInt (pair_ranks c ! 0))"
proof -
  from assms have "pair_ranks c ! 0 \<in> set (pair_ranks c)" by simp
  then show ?thesis by (auto dest: pair_ranks_range)
qed

lemma tiebreak_int_two_pair:
  "2 \<le> length (pair_ranks c) \<Longrightarrow> tiebreak_int (PInt (pair_ranks c ! 0))"
  by (rule tiebreak_int_pair) linarith

lemma evaluate_tiebreak_ints:
  "four_kind c nj = Some r \<Longrightarrow> tiebreak_int (PInt r)"
  "three_kind c nj = Some r \<Longrightarrow> tiebreak_int (PInt r)"
  "full_house c nj = Some (t, p) \<Longrightarrow> tiebreak_int (PInt t)"
  "full_house c nj = Some (t, p) \<Longrightarrow> tiebreak_int (PInt p)"
  "hand_ranks normal \<noteq> [] \<Longrightarrow> tiebreak_int (PInt (Max (set (hand_ranks normal))))"
  "1 \<notin> set ranks \<Longrightarrow> tiebreak_int (PInt (best_straight ranks nj))"
  "tiebreak_int (PInt 0)"
  using Max_hand_ranks_range [of normal] best_straight_range [of ranks nj]
    tiebreak_int_pair [of c]
  by (auto simp: four_kind_def three_kind_def dest: tiebreak_int_find_range full_house_range)

lemma evaluate_shape: "score_shape (evaluate h)"
  unfolding evaluate_def Let_def
  by (simp add: score_shape_def evaluate_tiebreak_ints tiebreak_int_pair tiebreak_int_two_pair del: tiebreak_int.simps
      split: option.split prod.split)

lemma evaluate_category: "0 \<le> fst (evaluate h) \<and> fst (evaluate h) \<le> 8"
  unfolding evaluate_def Let_def by (simp split: option.split prod.split)

lemma mset_concat_map_eq:
  "mset xs = mset ys \<Longrightarrow> mset (concat (map f xs)) = mset (concat (map f ys))"
  by (simp add: mset_concat mset_map flip: sum_mset_sum_list)

lemma mset_normal_cards: "mset h = mset h' \<Longrightarrow> mset (normal_cards h) = mset (normal_cards h')"
  unfolding normal_cards_def by (rule mset_concat_map_eq)

lemma length_jokers_mset: "mset h = mset h' \<Longrightarrow> length (jokers h) = length (jokers h')"
  by (simp add: length_jokers flip: count_mset)

lemma sort_mset_eq: "mset xs = mset ys \<Longrightarrow> sort xs = sort ys"
  by (rule properties_for_sort) simp_all

lemma flush_tiebreak_mset:
  assumes "mset normal = mset normal'"
  shows "flush_tiebreak normal s = flush_tiebreak normal' s"
proof -
  have "mset [face_str f. (f, s') \<leftarrow> normal, s' = s] = mset [face_str f. (f, s') \<leftarrow> normal', s' = s]"
    using assms by (rule mset_concat_map_eq)
  then have "sort [face_str f. (f, s') \<leftarrow> normal, s' = s] = sort [face_str f. (f, s') \<leftarrow> normal', s' = s]"
    by (rule sort_mset_eq)
  then show ?thesis by (simp add: flush_tiebreak_def)
qed

lemma flush_suit_mset_Some:
  assumes "flush_suit (counter suits) nj = Some s" and "mset suits = mset suits'"
    and "length suits + nj = 5"
  shows "flush_suit (counter suits') nj = Some s"
proof (rule flush_suit_all_same)
  from assms(2) have set: "set suits' = set suits" and len: "length suits' = length suits"
    by (auto dest: mset_eq_setD mset_eq_length)
  from assms(1) have "s \<in> set suits" by (blast dest: flush_suit_SomeD)
  with set show "suits' \<noteq> []" by auto
  from set show "\<forall>x\<in>set suits'. x = s" using flush_suit_one_suit [OF assms(3,1)] by auto
  from len assms(3) show "5 \<le> length suits' + nj" by simp
qed

lemma flush_suit_mset:
  assumes "mset suits = mset suits'" and "length suits + nj = 5"
  shows "flush_suit (counter suits) nj = flush_suit (counter suits') nj"
proof (cases "flush_suit (counter suits) nj")
  case None
  show ?thesis
  proof (cases "flush_suit (counter suits') nj")
    case (Some s)
    from assms have "mset suits' = mset suits" and "length suits' + nj = 5"
      by (auto dest: mset_eq_length)
    with Some have "flush_suit (counter suits) nj = Some s" by (rule flush_suit_mset_Some)
    with None show ?thesis by simp
  qed (simp add: None)
next
  case (Some s)
  have "flush_suit (counter suits') nj = Some s"
    using Some assms by (rule flush_suit_mset_Some)
  with Some show ?thesis by simp
qed

text \<open>Everything \<open>evaluate\<close> reads from the rank counter is a function of
  \<open>c.get(r, 0)\<close>.\<close>

lemma best_straight_set_cong:
  "set ranks = set ranks' \<Longrightarrow> best_straight ranks = best_straight ranks'"
  by (simp add: fun_eq_iff best_straight_def straight_needed_def)


lemma rank_counter_parts_cong:
  assumes "counter_get c = counter_get c'"
  shows "four_kind c = four_kind c'" and "three_kind c = three_kind c'"
    and "full_house c = full_house c'" and "pair_ranks c = pair_ranks c'"
proof -
  show "four_kind c = four_kind c'" by (simp add: fun_eq_iff four_kind_def assms)
  show "three_kind c = three_kind c'" by (simp add: fun_eq_iff three_kind_def assms)
  show "pair_ranks c = pair_ranks c'" by (simp add: pair_ranks_def assms)
  show "full_house c = full_house c'"
    by (simp add: fun_eq_iff full_house_def full_three_def assms split: option.split)
qed

theorem evaluate_perm:
  assumes "mset h = mset h'" and "length h = 5"
  shows "evaluate h = evaluate h'"
proof -
  let ?N = "normal_cards h" and ?N' = "normal_cards h'"
  let ?R = "hand_ranks ?N" and ?R' = "hand_ranks ?N'"
  have N: "mset ?N = mset ?N'" using assms(1) by (rule mset_normal_cards)
  have nj: "length (jokers h) = length (jokers h')" using assms(1) by (rule length_jokers_mset)
  have R: "mset ?R = mset ?R'" using N by (simp add: hand_ranks_def)
  then have setR: "set ?R = set ?R'" by (rule mset_eq_setD)
  from R have cnt: "counter_get (counter ?R) = counter_get (counter ?R')"
    by (simp add: fun_eq_iff flip: count_mset)
  have len: "length (map snd ?N) + length (jokers h) = 5"
    using length_normal_cards [of h] assms(2) by simp
  have fs: "flush_suit (counter (map snd ?N)) (length (jokers h')) =
      flush_suit (counter (map snd ?N')) (length (jokers h'))"
    using N len nj by (intro flush_suit_mset) simp_all
  have ft: "flush_tiebreak ?N = flush_tiebreak ?N'"
    by (rule ext) (rule flush_tiebreak_mset [OF N])
  have nil: "?R = [] \<longleftrightarrow> ?R' = []" using setR by (metis set_empty)
  note parts = rank_counter_parts_cong [OF cnt] best_straight_set_cong [OF setR]
  show ?thesis
    unfolding evaluate_def Let_def
    by (simp only: nj fs ft setR nil parts)
qed


subsection \<open>Properties of \<open>evaluate\<close>\<close>


text \<open>C1. Whatever list of cards it is given, \<open>evaluate\<close> returns a score of the expected shape: a category between 0 and 8 that indexes \<open>HAND_NAMES\<close> safely, a five-entry tiebreak for a flush, and a non-empty list of integer ranks in 0..14 for every other category.\<close>

theorem evaluate_well_formed:
  "score_shape (evaluate h) \<and> nat (fst (evaluate h)) < length HAND_NAMES"
proof -
  have s: "score_shape (evaluate h)" by (rule evaluate_shape)
  then have "fst (evaluate h) \<le> 8" by (simp add: score_shape_def)
  then have "nat (fst (evaluate h)) < 9" by linarith
  moreover have "length HAND_NAMES = 9" by (simp add: HAND_NAMES_def)
  ultimately show ?thesis using s by simp
qed

text \<open>C2. The score of a five-card hand depends only on the multiset of its cards, not on the order in which they were dealt.\<close>

theorem evaluate_hand_order:
  assumes "mset h = mset h'" and "length h = 5"
  shows "evaluate h = evaluate h'"
  using assms by (rule evaluate_perm)

theorem evaluate_hand_order_witness:
  "mset [Card Ace Spade, Card King Spade, Card Queen Spade, Card Jack Spade, Joker] =
     mset [Joker, Card Jack Spade, Card Queen Spade, Card King Spade, Card Ace Spade] \<and>
   length [Card Ace Spade, Card King Spade, Card Queen Spade, Card Jack Spade, Joker] = 5 \<and>
   evaluate [Card Ace Spade, Card King Spade, Card Queen Spade, Card Jack Spade, Joker] =
     evaluate [Joker, Card Jack Spade, Card Queen Spade, Card King Spade, Card Ace Spade]"
proof -
  have m: "mset [Card Ace Spade, Card King Spade, Card Queen Spade, Card Jack Spade, Joker] =
     mset [Joker, Card Jack Spade, Card Queen Spade, Card King Spade, Card Ace Spade]"
    by (simp add: add_mset_commute)
  show ?thesis using evaluate_hand_order [OF m] m by simp
qed

text \<open>C3. Comparing two scores computed by \<open>evaluate\<close> with Python's \<open><\<close> (as \<open>play_round\<close> does) raises an exception only when both hands are flushes; all other comparisons are defined.\<close>

theorem compare_raises_only_for_flushes:
  assumes "score_lt (evaluate h1) (evaluate h2) = Inl e"
  shows "fst (evaluate h1) = 5 \<and> fst (evaluate h2) = 5"
  using evaluate_shape evaluate_shape assms by (rule score_lt_shape_error)

theorem compare_raises_only_for_flushes_witness:
  "score_lt (evaluate [Card King Heart, Card Queen Heart, Card Nine Heart, Card Five Heart, Card Three Heart])
      (evaluate [Card King Spade, Card Queen Spade, Card Nine Spade, Card Five Spade, Joker]) = Inl TypeError \<and>
   fst (evaluate [Card King Heart, Card Queen Heart, Card Nine Heart, Card Five Heart, Card Three Heart]) = 5 \<and>
   fst (evaluate [Card King Spade, Card Queen Spade, Card Nine Spade, Card Five Spade, Joker]) = 5"
proof -
  have e: "score_lt (evaluate [Card King Heart, Card Queen Heart, Card Nine Heart, Card Five Heart, Card Three Heart])
      (evaluate [Card King Spade, Card Queen Spade, Card Nine Spade, Card Five Spade, Joker]) = Inl TypeError"
    by code_simp
  show ?thesis using compare_raises_only_for_flushes [OF e] e by simp
qed

text \<open>Because the flush tiebreak holds face strings, an ace-high flush compares below a queen-high flush with the same lower cards (the string \<open>"A"\<close> sorts below \<open>"Q"\<close>), contrary to the rank values the spec prescribes.\<close>

theorem flush_tiebreak_misorders:
  "score_lt (evaluate [Card Ace Heart, Card Nine Heart, Card Seven Heart, Card Five Heart, Card Three Heart])
     (evaluate [Card Queen Spade, Card Nine Spade, Card Seven Spade, Card Five Spade, Card Three Spade]) =
   Inr True"
  by code_simp

text \<open>C8. The straight search over \<open>range(14, 4, -1)\<close> equals the search over 14 down to 6 that the spec describes (the window topped by 5 never succeeds where the one topped by 6 failed), and the best straight is 0 or lies in 6..14.\<close>

theorem straight_window_from_six:
  "best_straight (hand_ranks normal) nj =
     (case find (\<lambda>st. length (straight_needed (hand_ranks normal) st) \<le> nj) (py_range_desc 14 5) of
        None \<Rightarrow> 0 | Some st \<Rightarrow> st) \<and>
   (best_straight (hand_ranks normal) nj = 0 \<or>
    6 \<le> best_straight (hand_ranks normal) nj \<and> best_straight (hand_ranks normal) nj \<le> 14)"
  using best_straight_from_six_gen [of "hand_ranks normal" nj]
    best_straight_range [of "hand_ranks normal" nj] by simp

text \<open>C9. In a five-card hand the flush test succeeds for suit \<open>s\<close> exactly when the hand has a standard card and every standard card has suit \<open>s\<close>.\<close>

theorem flush_single_suit:
  assumes "length h = 5"
  shows "flush_suit (counter (map snd (normal_cards h))) (length (jokers h)) = Some s \<longleftrightarrow>
    normal_cards h \<noteq> [] \<and> (\<forall>(f, s') \<in> set (normal_cards h). s' = s)"
proof -
  have len: "length (map snd (normal_cards h)) + length (jokers h) = 5"
    using length_normal_cards [of h] assms by simp
  show ?thesis
  proof
    assume fs: "flush_suit (counter (map snd (normal_cards h))) (length (jokers h)) = Some s"
    then have "s \<in> set (map snd (normal_cards h))" by (blast dest: flush_suit_SomeD)
    moreover have "\<forall>x \<in> set (map snd (normal_cards h)). x = s"
      using flush_suit_one_suit [OF len fs] by blast
    ultimately show "normal_cards h \<noteq> [] \<and> (\<forall>(f, s') \<in> set (normal_cards h). s' = s)"
      by auto
  next
    assume "normal_cards h \<noteq> [] \<and> (\<forall>(f, s') \<in> set (normal_cards h). s' = s)"
    then show "flush_suit (counter (map snd (normal_cards h))) (length (jokers h)) = Some s"
      using len by (intro flush_suit_all_same) auto
  qed
qed

theorem flush_single_suit_witness:
  "length [Card King Spade, Card Queen Spade, Card Nine Spade, Card Five Spade, Joker] = 5 \<and>
   flush_suit (counter (map snd (normal_cards [Card King Spade, Card Queen Spade, Card Nine Spade, Card Five Spade, Joker])))
     (length (jokers [Card King Spade, Card Queen Spade, Card Nine Spade, Card Five Spade, Joker])) = Some Spade"
proof -
  have l: "length [Card King Spade, Card Queen Spade, Card Nine Spade, Card Five Spade, Joker] = 5" by simp
  show ?thesis using flush_single_suit [OF l, of Spade] l by simp
qed

text \<open>C10. A full house \<open>(three, pair)\<close> found by the code uses two different ranks, and the jokers needed to complete the three and those needed to complete the pair together never exceed the jokers in the hand (the budget is shared, not counted twice).\<close>

theorem full_house_joker_budget:
  assumes "full_house c nj = Some (t, p)"
  shows "t \<noteq> p \<and> nat (3 - int (counter_get c t)) + nat (2 - int (counter_get c p)) \<le> nj"
proof -
  from assms obtain three: "three_kind c nj = Some t"
    and pair: "find (\<lambda>r. r \<noteq> t \<and>
            2 \<le> int (counter_get c r) + (int nj - max 0 (3 - int (counter_get c t))))
          (py_range_desc 14 1) = Some p"
    by (rule full_house_SomeE)
  from three have "3 \<le> counter_get c t + nj"
    by (auto simp: three_kind_def dest: find_SomeD)
  moreover from pair have "p \<noteq> t"
    and "2 \<le> int (counter_get c p) + (int nj - max 0 (3 - int (counter_get c t)))"
    by (auto dest: find_SomeD)
  ultimately show ?thesis by linarith
qed

theorem full_house_joker_budget_witness:
  "full_house (counter [9, 9, 5, 5]) 1 = Some (9, 5) \<and>
   9 \<noteq> (5::int) \<and> nat (3 - int (counter_get (counter [9, 9, 5, 5]) 9)) +
     nat (2 - int (counter_get (counter [9, 9, 5, 5]) 5)) \<le> 1"
proof -
  have fh: "full_house (counter [9, 9, 5, 5]) 1 = Some (9, 5)" by code_simp
  show ?thesis using full_house_joker_budget [OF fh] fh by simp
qed

text \<open>C11. The full-house loop without \<open>break\<close>, guarded by \<open>not three\<close>, selects the highest rank whose count plus the jokers reaches three.\<close>

theorem full_three_greatest:
  "full_three c nj = Some t \<longleftrightarrow>
     1 < t \<and> t \<le> 14 \<and> 3 \<le> counter_get c t + nj \<and>
     (\<forall>r. t < r \<and> r \<le> 14 \<longrightarrow> counter_get c r + nj < 3)"
  by (auto simp: full_three_eq_three_kind three_kind_def find_range_desc_Some not_le)

theorem full_three_greatest_witness:
  "full_three (counter [9, 9, 5, 5]) 1 = Some 9 \<and> 3 \<le> counter_get (counter [9, 9, 5, 5]) 9 + 1 \<and>
   counter_get (counter [9, 9, 5, 5::int]) 12 + 1 < 3"
proof -
  have ft: "full_three (counter [9, 9, 5, 5]) 1 = Some 9" by code_simp
  show ?thesis using full_three_greatest [of "counter [9, 9, 5, 5]" 1 9] ft by simp
qed

text \<open>Replacing a standard card by a joker can lower the category (a pair becomes a high card, because pairs ignore jokers): the monotonicity property stated in spec section 8 does not hold of the code.\<close>

theorem joker_substitution_not_monotone:
  "\<exists>h i. i < length h \<and> h ! i \<noteq> Joker \<and> fst (evaluate (h[i := Joker])) < fst (evaluate h)"
proof -
  let ?h = "[Card Two Heart, Card Two Diamond, Card Five Club, Card Nine Spade, Card King Heart]"
  have "fst (evaluate (?h[0 := Joker])) < fst (evaluate ?h)" by code_simp
  then show ?thesis by (intro exI [of _ ?h] exI [of _ 0]) simp
qed

text \<open>The concrete evaluator scenarios 1--4 of spec section 8 hold.\<close>

theorem evaluate_spec_scenarios:
  "evaluate [Card Ace Spade, Card King Spade, Card Queen Spade, Card Jack Spade, Card Ten Spade] = (8, [PInt 14]) \<and>
   evaluate [Card Ace Spade, Card King Spade, Card Queen Spade, Card Jack Spade, Joker] = (8, [PInt 14]) \<and>
   evaluate [Card Five Heart, Card Five Diamond, Card Five Club, Card Nine Spade, Card Two Diamond] = (3, [PInt 5]) \<and>
   evaluate [Card Two Heart, Card Two Diamond, Card Nine Spade, Card Nine Diamond, Card Three Club] = (2, [PInt 9])"
  by code_simp

end
