(* ===== verification/Resolver.thy ===== *)
theory Resolver
  imports Complex_Main Evaluator
begin

text \<open>
  The statistics of src/poker.py: the module globals \<open>player_wins\<close>,
  \<open>dealer_wins\<close> and \<open>pending_push_multiplier\<close> (lines 194--196) as a record,
  the end of \<open>play_round\<close> that compares the two scores and updates them
  (lines 282--292), and the win percentages shown by \<open>show_table\<close>
  (lines 198--203). The comparison can raise \<open>TypeError\<close> (see \<open>PyCompare\<close>),
  and then \<open>play_round\<close> stops before any update: the resolver returns
  \<open>py_error + (outcome \<times> tally)\<close>. A run of rounds is the resolver folded over the
  rounds' scores; the reachable tallies are an inductive set.
\<close>

record tally =
  player_wins :: int
  dealer_wins :: int
  pending_push_multiplier :: int

definition tally_init :: tally where
  "tally_init = \<lparr>player_wins = 0, dealer_wins = 0, pending_push_multiplier = 1\<rparr>"

datatype outcome = PlayerWin | DealerWin | Push

text \<open>Lines 282--292: \<open>if p_score > d_score \<dots> elif p_score < d_score \<dots> else\<close>;
  \<open>p > d\<close> is evaluated as \<open>d < p\<close>.\<close>

definition resolve :: "score \<Rightarrow> score \<Rightarrow> tally \<Rightarrow> py_error + (outcome \<times> tally)" where
  "resolve p_score d_score t =
     (case score_lt d_score p_score of
        Inl e \<Rightarrow> Inl e
      | Inr True \<Rightarrow>
          Inr (PlayerWin, t\<lparr>player_wins := player_wins t + pending_push_multiplier t,
                            pending_push_multiplier := 1\<rparr>)
      | Inr False \<Rightarrow>
          (case score_lt p_score d_score of
             Inl e \<Rightarrow> Inl e
           | Inr True \<Rightarrow>
               Inr (DealerWin, t\<lparr>dealer_wins := dealer_wins t + pending_push_multiplier t,
                                 pending_push_multiplier := 1\<rparr>)
           | Inr False \<Rightarrow>
               Inr (Push, t\<lparr>pending_push_multiplier := pending_push_multiplier t * 2\<rparr>)))"

text \<open>Lines 198--200, in exact arithmetic: \<open>int(player_wins / total * 100)\<close>
  truncates towards zero. (CPython computes the quotient and the product in binary
  floating point; the model does not round them.)\<close>

definition get_player_percent :: "tally \<Rightarrow> int" where
  "get_player_percent t =
     (let total = player_wins t + dealer_wins t
      in if 0 < total
         then (let x = (of_int (player_wins t) / of_int total * 100 :: real)
               in if 0 \<le> x then \<lfloor>x\<rfloor> else \<lceil>x\<rceil>)
         else 50)"

text \<open>Lines 202--203.\<close>

definition get_dealer_percent :: "tally \<Rightarrow> int" where
  "get_dealer_percent t = 100 - get_player_percent t"

text \<open>A session as a sequence of rounds, each given by the two scores; the first error
  ends it.\<close>

fun resolve_rounds :: "(score \<times> score) list \<Rightarrow> tally \<Rightarrow> py_error + (outcome list \<times> tally)" where
  "resolve_rounds [] t = Inr ([], t)"
| "resolve_rounds ((p, d) # rs) t =
     (case resolve p d t of
        Inl e \<Rightarrow> Inl e
      | Inr (oc, t') \<Rightarrow>
          (case resolve_rounds rs t' of
             Inl e \<Rightarrow> Inl e
           | Inr (os, t'') \<Rightarrow> Inr (oc # os, t'')))"

text \<open>The tallies a session can reach.\<close>

inductive tally_reachable :: "tally \<Rightarrow> bool" where
  init: "tally_reachable tally_init"
| step: "tally_reachable t \<Longrightarrow> resolve p d t = Inr (oc, t') \<Longrightarrow> tally_reachable t'"

text \<open>A positive power of two, as an executable test.\<close>

function is_pow2 :: "int \<Rightarrow> bool" where
  "is_pow2 m = (if m = 1 then True else if 1 < m \<and> even m then is_pow2 (m div 2) else False)"
  by pat_completeness auto
termination
  by (relation "measure (\<lambda>m. nat m)") auto

declare is_pow2.simps [simp del]

definition tally_ok :: "tally \<Rightarrow> bool" where
  "tally_ok t \<longleftrightarrow> 0 \<le> player_wins t \<and> 0 \<le> dealer_wins t \<and> is_pow2 (pending_push_multiplier t)"

text \<open>The resolver as the spec states it (section 4.2), on integer scores ordered
  lexicographically.\<close>

definition resolve_spec :: "int \<times> int list \<Rightarrow> int \<times> int list \<Rightarrow> tally \<Rightarrow> outcome \<times> tally" where
  "resolve_spec p d t =
     (if d < p then (PlayerWin, t\<lparr>player_wins := player_wins t + pending_push_multiplier t,
                                  pending_push_multiplier := 1\<rparr>)
      else if p < d then (DealerWin, t\<lparr>dealer_wins := dealer_wins t + pending_push_multiplier t,
                                       pending_push_multiplier := 1\<rparr>)
      else (Push, t\<lparr>pending_push_multiplier := pending_push_multiplier t * 2\<rparr>))"

declare resolve_def [eval_defs] tally_init_def [eval_defs] get_player_percent_def [eval_defs]
  get_dealer_percent_def [eval_defs]

subsection \<open>Lemmas\<close>

lemma resolve_player:
  "score_lt d p = Inr True \<Longrightarrow>
   resolve p d t = Inr (PlayerWin, t\<lparr>player_wins := player_wins t + pending_push_multiplier t,
                                     pending_push_multiplier := 1\<rparr>)"
  by (simp add: resolve_def)

lemma resolve_same: "resolve p p t = Inr (Push, t\<lparr>pending_push_multiplier := pending_push_multiplier t * 2\<rparr>)"
  by (simp add: resolve_def)

lemma is_pow2_1 [simp]: "is_pow2 1"
  by (subst is_pow2.simps) simp

lemma is_pow2_pos: "is_pow2 m \<Longrightarrow> 0 < m"
  by (subst (asm) is_pow2.simps) (auto split: if_splits)

lemma is_pow2_double: "is_pow2 m \<Longrightarrow> is_pow2 (m * 2)"
proof -
  assume m: "is_pow2 m"
  then have "0 < m" by (rule is_pow2_pos)
  with m show ?thesis by (subst is_pow2.simps) simp
qed

lemma is_pow2_power: "is_pow2 (2 ^ k)"
proof (induction k)
  case (Suc k)
  then show ?case using is_pow2_double [of "2 ^ k"] by (simp add: mult.commute)
qed simp

lemma resolve_tally_ok: "resolve p d t = Inr (oc, t') \<Longrightarrow> tally_ok t \<Longrightarrow> tally_ok t'"
  by (auto simp: resolve_def tally_ok_def is_pow2_double split: sum.splits bool.splits if_splits
      dest: is_pow2_pos)

lemma tally_reachable_ok: "tally_reachable t \<Longrightarrow> tally_ok t"
proof (induction rule: tally_reachable.induct)
  case init
  show ?case by (simp add: tally_ok_def tally_init_def)
next
  case (step t p d oc t')
  then show ?case by (blast intro: resolve_tally_ok)
qed

lemma resolve_rounds_pushes:
  "resolve_rounds (replicate k (q, q) @ rs) t =
     (case resolve_rounds rs (t\<lparr>pending_push_multiplier := pending_push_multiplier t * 2 ^ k\<rparr>) of
        Inl e \<Rightarrow> Inl e
      | Inr (os, t'') \<Rightarrow> Inr (replicate k Push @ os, t''))"
proof (induction k arbitrary: t)
  case 0
  then show ?case by (cases "resolve_rounds rs t") auto
next
  case (Suc k)
  then show ?case
    by (simp add: resolve_same mult.assoc mult.commute [of 2] split: sum.split prod.split)
qed


lemma is_pow2_exp: "is_pow2 m \<Longrightarrow> \<exists>k. m = 2 ^ k"
proof (induction m rule: is_pow2.induct)
  case (1 m)
  show ?case
  proof (cases "m = 1")
    case True
    then show ?thesis by (intro exI [of _ 0]) simp
  next
    case False
    with "1.prems" have m: "1 < m \<and> even m" and "is_pow2 (m div 2)"
      by (subst (asm) is_pow2.simps; simp split: if_splits)+
    with "1.IH" obtain k where "m div 2 = 2 ^ k" by blast
    with m have "m = 2 ^ Suc k" by (metis dvd_mult_div_cancel power_Suc)
    then show ?thesis by blast
  qed
qed

lemma percent_range:
  assumes "0 \<le> p" and "0 \<le> d"
  shows "0 \<le> get_player_percent \<lparr>player_wins = p, dealer_wins = d, pending_push_multiplier = m\<rparr> \<and>
    get_player_percent \<lparr>player_wins = p, dealer_wins = d, pending_push_multiplier = m\<rparr> \<le> 100"
proof (cases "0 < p + d")
  case True
  have "of_int p / of_int (p + d) \<le> (1::real)"
    using assms True by (simp add: divide_le_eq_1)
  then have le: "of_int p / of_int (p + d) * 100 \<le> (100::real)"
    using mult_right_mono [of "of_int p / of_int (p + d)" 1 "100::real"] by simp
  have ge: "0 \<le> of_int p / of_int (p + d) * (100::real)"
    using assms True by simp
  from le ge have "\<lfloor>of_int p / of_int (p + d) * (100::real)\<rfloor> \<le> 100"
    by (simp add: floor_le_iff)
  with ge True show ?thesis by (simp add: get_player_percent_def Let_def)
qed (simp add: get_player_percent_def)

subsection \<open>Properties of the resolver\<close>

text \<open>Comparing a five-card flush with a four-card-plus-joker flush of equal face
  strings raises \<open>TypeError\<close> (\<open>"3" < 14\<close>): \<open>play_round\<close> crashes with an
  uncaught exception instead of settling the round.\<close>

theorem resolve_flush_type_error:
  "resolve (evaluate [Card King Heart, Card Queen Heart, Card Nine Heart, Card Five Heart, Card Three Heart])
     (evaluate [Card King Spade, Card Queen Spade, Card Nine Spade, Card Five Spade, Joker]) t =
   Inl TypeError"
proof -
  have "score_lt (evaluate [Card King Spade, Card Queen Spade, Card Nine Spade, Card Five Spade, Joker])
      (evaluate [Card King Heart, Card Queen Heart, Card Nine Heart, Card Five Heart, Card Three Heart]) =
    Inl TypeError"
    by code_simp
  then show ?thesis by (simp add: resolve_def)
qed

text \<open>C4. Resolving two equal scores is always a push: the win counts are unchanged and
  the push multiplier doubles.\<close>

theorem resolve_push_symmetric:
  "\<exists>t'. resolve p p t = Inr (Push, t') \<and> player_wins t' = player_wins t \<and>
     dealer_wins t' = dealer_wins t \<and> pending_push_multiplier t' = 2 * pending_push_multiplier t"
  by (simp add: resolve_same)

text \<open>C5. On integer scores (every category but the flush) the resolver never raises and
  behaves as the spec's resolver, with scores ordered by category and then
  lexicographically by tiebreak.\<close>

theorem resolve_int_refines_spec:
  "resolve (a, map PInt xs) (b, map PInt ys) t = Inr (resolve_spec (a, xs) (b, ys) t)"
  unfolding resolve_def resolve_spec_def score_lt_ints by (simp split: bool.split)

text \<open>C6. After \<open>k\<close> pushes, a player win credits the player with the multiplier
  times \<open>2^k\<close> and resets the multiplier to 1.\<close>

theorem push_run_credit:
  assumes "score_lt d p = Inr True"
  shows "resolve_rounds (replicate k (q, q) @ [(p, d)]) t =
    Inr (replicate k Push @ [PlayerWin],
         t\<lparr>player_wins := player_wins t + pending_push_multiplier t * 2 ^ k,
           pending_push_multiplier := 1\<rparr>)"
  using assms by (simp add: resolve_rounds_pushes resolve_player)

theorem push_run_credit_witness:
  "score_lt (4, [PInt 10]) (8, [PInt 14]) = Inr True \<and>
   resolve_rounds (replicate 3 ((4, [PInt 10]), (4, [PInt 10])) @ [((8, [PInt 14]), (4, [PInt 10]))])
     tally_init =
   Inr ([Push, Push, Push, PlayerWin],
        \<lparr>player_wins = 8, dealer_wins = 0, pending_push_multiplier = 1\<rparr>)"
proof -
  have lt: "score_lt (4, [PInt 10]) (8, [PInt 14]) = Inr True" by simp
  show ?thesis
    using push_run_credit [OF lt, of 3 "(4, [PInt 10])" tally_init] lt
    by (simp add: tally_init_def numeral_eq_Suc)
qed

text \<open>C7. In every tally a session can reach, both win counts are non-negative and the
  push multiplier is a power of two.\<close>

theorem tally_invariant:
  assumes "tally_reachable t"
  shows "0 \<le> player_wins t \<and> 0 \<le> dealer_wins t \<and> (\<exists>k. pending_push_multiplier t = 2 ^ k)"
  using tally_reachable_ok [OF assms] by (auto simp: tally_ok_def dest: is_pow2_exp)

theorem tally_invariant_witness:
  "tally_reachable \<lparr>player_wins = 0, dealer_wins = 0, pending_push_multiplier = 2\<rparr> \<and>
   (\<exists>k. pending_push_multiplier \<lparr>player_wins = 0, dealer_wins = 0, pending_push_multiplier = 2\<rparr> =
     (2::int) ^ k)"
proof -
  have r: "tally_reachable \<lparr>player_wins = 0, dealer_wins = 0, pending_push_multiplier = 2\<rparr>"
    using tally_reachable.step [OF tally_reachable.init, of p p]
    by (simp add: resolve_same tally_init_def)
  show ?thesis using tally_invariant [OF r] r by simp
qed

text \<open>C14. In every reachable tally the player's win percentage lies in 0..100 and the
  two displayed percentages add up to 100.\<close>

theorem percent_bounds:
  assumes "tally_reachable t"
  shows "0 \<le> get_player_percent t \<and> get_player_percent t \<le> 100 \<and>
    get_player_percent t + get_dealer_percent t = 100"
proof -
  from tally_reachable_ok [OF assms] have "0 \<le> player_wins t" and "0 \<le> dealer_wins t"
    by (simp_all add: tally_ok_def)
  from percent_range [OF this, of "pending_push_multiplier t"]
  show ?thesis by (cases t) (simp add: get_dealer_percent_def)
qed

theorem percent_bounds_witness:
  "tally_reachable tally_init \<and> get_player_percent tally_init = 50 \<and>
   0 \<le> get_player_percent tally_init \<and> get_player_percent tally_init \<le> 100 \<and>
   get_player_percent tally_init + get_dealer_percent tally_init = 100"
  using percent_bounds [OF tally_reachable.init] tally_reachable.init
  by (simp add: get_player_percent_def tally_init_def)

end
