(* ===== verification/Discard.thy ===== *)
theory Discard
  imports Cards
begin

text \<open>
  \<open>dealer_discard_strategy(hand)\<close> of src/poker.py (lines 221--244): the indices of
  the dealer's cards to replace. The code builds a set \<open>keep\<close> in three loops over
  \<open>enumerate(hand)\<close> (jokers; every card whose face occurs at least twice among the
  standard cards, found through a Counter of the face strings; faces 10 and above) and
  returns the other indices in increasing order. Each \<open>for i, c in enumerate(hand): if
  \<dots>: keep.add(i)\<close> loop is \<open>add_indices\<close>, a fold over the indices; the loop over
  \<open>count.items()\<close> is a fold over the Counter. The main lemma shows that the result is
  the rule of spec section 4.3, stated per card.
\<close>

definition add_indices :: "(card \<Rightarrow> bool) \<Rightarrow> card list \<Rightarrow> nat set \<Rightarrow> nat set" where
  "add_indices P hand keep =
     fold (\<lambda>i keep. if P (hand ! i) then insert i keep else keep) [0..<length hand] keep"

definition HIGH_FACES :: "string list" where
  "HIGH_FACES = [''10'', ''J'', ''Q'', ''K'', ''A'']"

definition dealer_discard_strategy :: "card list \<Rightarrow> nat list" where
  "dealer_discard_strategy hand =
     (let ranks = [card_head c. c \<leftarrow> hand, card_head c \<noteq> ''JOKER''];
          rank_counts = counter ranks;
          keep = add_indices (\<lambda>c. card_head c = ''JOKER'') hand {};
          keep = fold (\<lambda>(rank, qty) keep.
                   if 2 \<le> qty then add_indices (\<lambda>c. card_head c = rank) hand keep else keep)
                   rank_counts keep;
          keep = add_indices (\<lambda>c. card_head c \<in> set HIGH_FACES) hand keep
      in filter (\<lambda>i. i \<notin> keep) [0..<length hand])"

text \<open>The rule of spec section 4.3, card by card: a card is discarded when it is a
  standard card whose face occurs only once among the standard cards and is below 10.\<close>

definition discard_spec :: "card list \<Rightarrow> nat list" where
  "discard_spec hand =
     filter (\<lambda>i. case hand ! i of
                  Joker \<Rightarrow> False
                | Card f s \<Rightarrow>
                    count_list [card_head c. c \<leftarrow> hand, card_head c \<noteq> ''JOKER''] (face_str f) < 2 \<and>
                    face_value f < 10)
       [0..<length hand]"

declare dealer_discard_strategy_def [eval_defs] add_indices_def [eval_defs]
  HIGH_FACES_def [eval_defs]

subsection \<open>Lemmas\<close>

lemma fold_add_index:
  "fold (\<lambda>i keep. if P (hand ! i) then insert i keep else keep) xs K =
   K \<union> {i \<in> set xs. P (hand ! i)}"
  by (induction xs arbitrary: K) auto

lemma add_indices_eq: "add_indices P hand K = K \<union> {i. i < length hand \<and> P (hand ! i)}"
  by (auto simp: add_indices_def fold_add_index)

lemma fold_keep_pairs:
  fixes items :: "(string \<times> nat) list"
  shows "fold (\<lambda>(rank, qty) keep. if 2 \<le> qty then add_indices (\<lambda>c. card_head c = rank) hand keep else keep)
     items K =
   K \<union> {i. i < length hand \<and> (\<exists>qty. (card_head (hand ! i), qty) \<in> set items \<and> 2 \<le> qty)}"
  by (induction items arbitrary: K) (auto simp: add_indices_eq split: if_splits)

lemma high_faces_iff: "face_str f \<in> set HIGH_FACES \<longleftrightarrow> 10 \<le> face_value f"
  by (cases f) (simp_all add: HIGH_FACES_def)

lemma joker_head_iff: "card_head c = ''JOKER'' \<longleftrightarrow> c = Joker"
  by (cases c) simp_all

text \<open>Which indices the three loops keep.\<close>

lemma dealer_keep_iff:
  fixes hand :: "card list"
  defines "ranks \<equiv> [card_head c. c \<leftarrow> hand, card_head c \<noteq> ''JOKER'']"
  assumes "i < length hand"
  shows "i \<notin> add_indices (\<lambda>c. card_head c \<in> set HIGH_FACES) hand
      (fold (\<lambda>(rank, qty) keep.
          if 2 \<le> qty then add_indices (\<lambda>c. card_head c = rank) hand keep else keep)
        (counter ranks) (add_indices (\<lambda>c. card_head c = ''JOKER'') hand {})) \<longleftrightarrow>
    (case hand ! i of Joker \<Rightarrow> False
     | Card f s \<Rightarrow> count_list ranks (face_str f) < 2 \<and> face_value f < 10)"
proof (cases "hand ! i")
  case (Card f s)
  have "hand ! i \<in> set hand" using assms(2) by simp
  with Card have "face_str f \<in> set ranks" by (force simp: ranks_def)
  with Card assms(2) show ?thesis
    by (auto simp: add_indices_eq fold_keep_pairs counter_items high_faces_iff)
next
  case Joker
  with assms(2) show ?thesis by (simp add: add_indices_eq fold_keep_pairs)
qed

lemma dealer_discard_eq_spec: "dealer_discard_strategy hand = discard_spec hand"
  unfolding dealer_discard_strategy_def discard_spec_def Let_def
  by (rule filter_cong) (simp_all add: dealer_keep_iff)

subsection \<open>Properties of the discard heuristic\<close>

text \<open>C13. The dealer discards exactly the cards that spec section 4.3 says to discard:
  standard cards below 10 whose face occurs only once among the standard cards; jokers,
  paired faces and faces 10 and above are kept. The indices are valid positions of the
  hand, in increasing order, each once.\<close>

theorem dealer_discard_matches_spec:
  "dealer_discard_strategy hand = discard_spec hand \<and>
   sorted (dealer_discard_strategy hand) \<and> distinct (dealer_discard_strategy hand) \<and>
   set (dealer_discard_strategy hand) \<subseteq> {..<length hand}"
  by (auto simp: dealer_discard_eq_spec discard_spec_def intro: sorted_wrt_filter)

end
