(* ===== verification/Round.thy ===== *)
theory Round
  imports Resolver Discard
begin

text \<open>
  \<open>play_round()\<close> of src/poker.py (lines 247--292): deal five cards to each side by
  popping the end of the shuffled deck, read the player's choice, replace the
  player's cards, replace the dealer's discards one by one, score both hands, look up
  the category names and settle the round. The deck is an explicit list threaded
  through the steps; \<open>input()\<close> is the parameter \<open>line\<close> (a string of code points
  0--255); every exception the code can raise is an \<open>Inl\<close> value, and \<open>py_bind\<close>
  stops the round there, as the uncaught exception does.
\<close>

subsection \<open>Parsing the choice\<close>

text \<open>\<open>int(c)\<close> of one character: only decimal digits parse.\<close>

definition py_int_char :: "char \<Rightarrow> py_error + int" where
  "py_int_char c =
     (let n = of_char c :: nat in if 48 \<le> n \<and> n \<le> 57 then Inr (int n - 48) else Inl ValueError)"

text \<open>The elements of \<open>{int(i)-1 for i in choice if i.isdigit() and 0 <= int(i)-1 < 5}\<close>
  (line 262), in the order the comprehension produces them.\<close>

fun keep_digits :: "string \<Rightarrow> py_error + int list" where
  "keep_digits [] = Inr []"
| "keep_digits (c # cs) =
     (if py_isdigit c
      then py_bind (py_int_char c) (\<lambda>v.
             if 0 \<le> v - 1 \<and> v - 1 < 5 then map_sum id (Cons (v - 1)) (keep_digits cs)
             else keep_digits cs)
      else keep_digits cs)"

text \<open>\<open>idxs_to_keep = sorted({\<dots>})\<close>\<close>

definition idxs_to_keep :: "string \<Rightarrow> py_error + int list" where
  "idxs_to_keep choice = map_sum id (\<lambda>ks. sorted_list_of_set (set ks)) (keep_digits choice)"

subsection \<open>Dealing and replacing cards\<close>

text \<open>\<open>[deck.pop() for _ in range(n)]\<close>: the cards in the order they are popped, and the
  deck that remains.\<close>

fun pop_cards :: "nat \<Rightarrow> card list \<Rightarrow> py_error + (card list \<times> card list)" where
  "pop_cards 0 deck = Inr ([], deck)"
| "pop_cards (Suc n) deck =
     py_bind (py_pop deck) (\<lambda>(c, deck').
       py_bind (pop_cards n deck') (\<lambda>(cs, deck''). Inr (c # cs, deck'')))"

text \<open>Lines 250--252.\<close>

definition deal :: "card list \<Rightarrow> py_error + (card list \<times> card list \<times> card list)" where
  "deal deck =
     py_bind (pop_cards 5 deck) (\<lambda>(player, deck).
       py_bind (pop_cards 5 deck) (\<lambda>(dealer, deck). Inr (player, dealer, deck)))"

text \<open>Lines 257--265, on the stripped input: keep all (\<open>a\<close> or \<open>A\<close>), replace all
  (empty input), or keep the chosen positions, in hand order, and draw the rest.\<close>

definition player_draw :: "string \<Rightarrow> card list \<Rightarrow> card list \<Rightarrow> py_error + (card list \<times> card list)" where
  "player_draw choice player deck =
     (if map py_lower choice = ''a'' then Inr (player, deck)
      else if choice = [] then pop_cards 5 deck
      else py_bind (idxs_to_keep choice) (\<lambda>idxs.
             let kept_cards = [c. (i, c) \<leftarrow> enumerate 0 player, int i \<in> set idxs]
             in py_bind (pop_cards (5 - length kept_cards) deck) (\<lambda>(new_cards, deck).
                  Inr (kept_cards @ new_cards, deck))))"

text \<open>Lines 268--270: \<open>dealer.pop(i)\<close> then \<open>dealer.append(deck.pop())\<close> for each
  index, in the order given.\<close>

fun replace_cards :: "nat list \<Rightarrow> card list \<Rightarrow> card list \<Rightarrow> py_error + (card list \<times> card list)" where
  "replace_cards [] dealer deck = Inr (dealer, deck)"
| "replace_cards (i # is) dealer deck =
     py_bind (py_pop_at i dealer) (\<lambda>(_, dealer).
       py_bind (py_pop deck) (\<lambda>(c, deck). replace_cards is (dealer @ [c]) deck))"

text \<open>Lines 267--270: the discards of \<open>dealer_discard_strategy\<close>, highest index first.\<close>

definition dealer_draw :: "card list \<Rightarrow> card list \<Rightarrow> py_error + (card list \<times> card list)" where
  "dealer_draw dealer deck = replace_cards (rev (sort (dealer_discard_strategy dealer))) dealer deck"

subsection \<open>The round\<close>

record round_result =
  final_player :: "card list"
  final_dealer :: "card list"
  rest_deck :: "card list"
  dealer_name :: string
  player_name :: string
  round_outcome :: outcome
  round_tally :: tally

text \<open>Lines 247--292, from the shuffled deck \<open>deck\<close> and the player's input line.\<close>

definition play_round :: "card list \<Rightarrow> string \<Rightarrow> tally \<Rightarrow> py_error + round_result" where
  "play_round deck line t =
     py_bind (deal deck) (\<lambda>(player, dealer, deck).
     py_bind (player_draw (py_strip line) player deck) (\<lambda>(player, deck).
     py_bind (dealer_draw dealer deck) (\<lambda>(dealer, deck).
       let p_score = evaluate player; d_score = evaluate dealer
       in py_bind (py_index HAND_NAMES (fst d_score)) (\<lambda>dn.
          py_bind (py_index HAND_NAMES (fst p_score)) (\<lambda>pn.
          py_bind (resolve p_score d_score t) (\<lambda>(oc, t').
            Inr \<lparr>final_player = player, final_dealer = dealer, rest_deck = deck,
                 dealer_name = dn, player_name = pn, round_outcome = oc, round_tally = t'\<rparr>))))))"
text \<open>\<open>game()\<close> (lines 295--302): rounds are played until the answer to
  \<open>Play another round?\<close>, lowered but not stripped, is \<open>n\<close>. Each round is given by
  its shuffled deck, the choice line and that answer (the line read by
  \<open>Press Enter to reveal dealer\<close> is not used). An exception of a round ends the
  game; the model returns \<open>None\<close> when the given rounds run out.\<close>

fun poker_game :: "(card list \<times> string \<times> string) list \<Rightarrow> tally \<Rightarrow> (py_error + tally) option" where
  "poker_game [] t = None"
| "poker_game ((deck, line, again) # rounds) t =
     (case play_round deck line t of
        Inl e \<Rightarrow> Some (Inl e)
      | Inr r \<Rightarrow>
          if map py_lower again = ''n'' then Some (Inr (round_tally r))
          else poker_game rounds (round_tally r))"

text \<open>The reference for a session: the rounds played one after the other, each from
  the tally the previous one left, whatever the answers; the first exception ends it.\<close>

fun play_rounds :: "(card list \<times> string \<times> string) list \<Rightarrow> tally \<Rightarrow> py_error + tally" where
  "play_rounds [] t = Inr t"
| "play_rounds ((deck, line, again) # rounds) t =
     py_bind (play_round deck line t) (\<lambda>r. play_rounds rounds (round_tally r))"

declare py_int_char_def [eval_defs] idxs_to_keep_def [eval_defs]
  deal_def [eval_defs] player_draw_def [eval_defs] dealer_draw_def [eval_defs]
  play_round_def [eval_defs]

subsection \<open>Lemmas\<close>

lemma pop_cards_eq:
  "pop_cards n deck =
     (if n \<le> length deck then Inr (take n (rev deck), take (length deck - n) deck)
      else Inl IndexError)"
proof (induction n arbitrary: deck)
  case 0
  then show ?case by simp
next
  case (Suc n)
  show ?case
  proof (cases deck rule: rev_cases)
    case Nil
    then show ?thesis by (simp add: py_pop_def)
  next
    case (snoc ys y)
    then show ?thesis by (simp add: py_pop_def Suc.IH)
  qed
qed

lemma nths_cong: "(\<And>i. i < length xs \<Longrightarrow> i \<in> A \<longleftrightarrow> i \<in> B) \<Longrightarrow> nths xs A = nths xs B"
  unfolding nths_def by (rule arg_cong [where f = "map fst"], rule filter_cong) (auto simp: set_zip)

lemma nths_remove:
  assumes "i < length xs" and "\<forall>j \<in> S. j < i"
  shows "nths xs (- insert i S) = nths (take i xs) (- S) @ drop (Suc i) xs"
proof -
  have xs: "xs = take i xs @ xs ! i # drop (Suc i) xs"
    using assms(1) by (rule id_take_nth_drop)
  have "nths (take i xs) (- insert i S) = nths (take i xs) (- S)"
    by (rule nths_cong) simp
  moreover have "nths (xs ! i # drop (Suc i) xs) {j. j + length (take i xs) \<in> - insert i S} =
      drop (Suc i) xs"
    using assms by (auto simp: nths_Cons min_def intro!: nths_all)
  ultimately show ?thesis
    by (subst xs) (simp only: nths_append)
qed

lemma mset_nths_subseteq: "mset (nths xs A) \<subseteq># mset xs"
proof -
  let ?zs = "zip xs [0..<length xs]"
  have "mset (filter (\<lambda>p. snd p \<in> A) ?zs) \<subseteq># mset ?zs"
    by (simp add: multiset_filter_subset)
  then have "image_mset fst (mset (filter (\<lambda>p. snd p \<in> A) ?zs)) \<subseteq># image_mset fst (mset ?zs)"
    by (rule image_mset_subseteq_mono)
  moreover have "image_mset fst (mset ?zs) = mset xs"
    by (metis mset_map map_fst_zip length_upt diff_zero)
  ultimately show ?thesis by (simp add: nths_def)
qed

lemma replace_cards_eq:
  assumes "sorted (rev is)" and "distinct is" and "\<forall>i \<in> set is. i < length xs"
    and "length is \<le> length deck"
  shows "replace_cards is (xs @ ys) deck =
    Inr (nths xs (- set is) @ ys @ take (length is) (rev deck), take (length deck - length is) deck)"
  using assms
proof (induction "is" arbitrary: xs ys deck)
  case Nil
  then show ?case by (simp add: nths_all)
next
  case (Cons i "is")
  from Cons.prems obtain d' c where deck: "deck = d' @ [c]"
    by (cases deck rule: rev_cases) auto
  have lt: "\<forall>j \<in> set is. j < i"
  proof
    fix j assume j: "j \<in> set is"
    with Cons.prems(1) have "j \<le> i" by (simp add: sorted_append)
    moreover from Cons.prems(2) j have "j \<noteq> i" by auto
    ultimately show "j < i" by simp
  qed
  have i: "i < length xs" using Cons.prems(3) by simp
  have pop: "py_pop_at i (xs @ ys) = Inr ((xs @ ys) ! i, take i xs @ drop (Suc i) xs @ ys)"
    using i by (simp add: py_pop_at_def)
  have ih: "replace_cards is (take i xs @ (drop (Suc i) xs @ ys @ [c])) d' =
      Inr (nths (take i xs) (- set is) @ (drop (Suc i) xs @ ys @ [c]) @ take (length is) (rev d'),
           take (length d' - length is) d')"
    using Cons.prems lt i deck by (intro Cons.IH) (auto simp: sorted_append)
  show ?case
    using pop ih deck Cons.prems(4) by (simp add: py_pop_def nths_remove [OF i lt])
qed

lemma mset_take_rev_take: "n \<le> length deck \<Longrightarrow>
    mset (take n (rev deck)) + mset (take (length deck - n) deck) = mset deck"
  by (metis add.commute append_take_drop_id mset_append mset_rev take_rev)

lemma pop_cards_Inr:
  assumes "pop_cards n deck = Inr (cs, deck')"
  shows "n \<le> length deck \<and> cs = take n (rev deck) \<and> deck' = take (length deck - n) deck \<and>
    mset cs + mset deck' = mset deck \<and> length cs = n \<and> length deck' = length deck - n"
proof -
  have n: "n \<le> length deck" using assms by (simp add: pop_cards_eq split: if_splits)
  then have "cs = take n (rev deck)" and "deck' = take (length deck - n) deck"
    using assms by (simp_all add: pop_cards_eq)
  with n show ?thesis by (simp add: mset_take_rev_take)
qed

lemma enumerate_filter_nths:
  "[c. (i, c) \<leftarrow> enumerate n xs, P i] = nths xs {i. P (i + n)}"
proof (induction xs arbitrary: n)
  case Nil
  then show ?case by simp
next
  case (Cons x xs)
  then show ?case by (simp add: nths_Cons)
qed

lemma length_nths_compl:
  assumes "distinct ds" and "\<forall>i \<in> set ds. i < length xs"
  shows "length (nths xs (- set ds)) + length ds = length xs"
proof -
  have "{i. i < length xs \<and> i \<in> - set ds} = {..<length xs} - set ds" by auto
  moreover have "card ({..<length xs} - set ds) = length xs - length ds"
    using assms by (simp add: card_Diff_subset subset_eq distinct_card)
  moreover have "length ds \<le> length xs"
    using assms card_mono [of "{..<length xs}" "set ds"] by (auto simp: distinct_card)
  ultimately show ?thesis by (simp add: length_nths)
qed

lemma dealer_discard_props:
  "distinct (dealer_discard_strategy hand) \<and> (\<forall>i \<in> set (dealer_discard_strategy hand). i < length hand)"
  by (simp add: dealer_discard_strategy_def Let_def)

lemma dealer_draw_eq:
  assumes "length dealer \<le> length deck"
  shows "dealer_draw dealer deck =
    Inr (nths dealer (- set (dealer_discard_strategy dealer)) @
           take (length (dealer_discard_strategy dealer)) (rev deck),
         take (length deck - length (dealer_discard_strategy dealer)) deck)"
proof -
  let ?ds = "dealer_discard_strategy dealer"
  have d: "distinct ?ds" and lt: "\<forall>i \<in> set ?ds. i < length dealer"
    using dealer_discard_props [of dealer] by simp_all
  have "length ?ds \<le> length dealer"
    using length_nths_compl [OF d lt] by linarith
  then have len: "length (rev (sort ?ds)) \<le> length deck" using assms by simp
  have "replace_cards (rev (sort ?ds)) (dealer @ []) deck =
      Inr (nths dealer (- set (rev (sort ?ds))) @ [] @ take (length (rev (sort ?ds))) (rev deck),
           take (length deck - length (rev (sort ?ds))) deck)"
    using d lt len by (intro replace_cards_eq) simp_all
  then show ?thesis by (simp add: dealer_draw_def)
qed

lemma keep_digits_eq:
  "keep_digits s =
     (if \<exists>c \<in> set s. of_char c \<in> ({178, 179, 185} :: nat set) then Inl ValueError
      else Inr [int (of_char c) - 49. c \<leftarrow> s, of_char c \<in> ({49..53} :: nat set)])"
  by (induction s) (auto simp: py_isdigit_def py_int_char_def Let_def)

lemma idxs_to_keep_Inr:
  assumes "\<not> (\<exists>c \<in> set choice. of_char c \<in> ({178, 179, 185} :: nat set))"
  shows "\<exists>idxs. idxs_to_keep choice = Inr idxs \<and>
    set idxs = {int (of_char c) - 49 | c. c \<in> set choice \<and> of_char c \<in> ({49..53} :: nat set)}"
  using assms by (auto simp: idxs_to_keep_def keep_digits_eq)

lemma kept_positions:
  assumes "length player = 5"
    and "set idxs = {int (of_char c) - 49 | c. c \<in> set choice \<and> of_char c \<in> ({49..53} :: nat set)}"
  shows "[c. (i, c) \<leftarrow> enumerate 0 player, int i \<in> set idxs] =
    nths player {i. \<exists>c \<in> set choice. of_char c = 49 + i}"
proof -
  have "nths player {i. int (i + 0) \<in> set idxs} = nths player {i. \<exists>c \<in> set choice. of_char c = 49 + i}"
  proof (rule nths_cong)
    fix i assume "i < length player"
    then have i5: "i < 5" using assms(1) by simp
    show "i \<in> {i. int (i + 0) \<in> set idxs} \<longleftrightarrow> i \<in> {i. \<exists>c \<in> set choice. of_char c = 49 + i}"
    proof
      assume "i \<in> {i. int (i + 0) \<in> set idxs}"
      then obtain c where c: "c \<in> set choice" "49 \<le> (of_char c :: nat)" "int i = int (of_char c) - 49"
        using assms(2) by auto
      then have "of_char c = 49 + i" by linarith
      with c(1) show "i \<in> {i. \<exists>c \<in> set choice. of_char c = 49 + i}" by auto
    next
      assume "i \<in> {i. \<exists>c \<in> set choice. of_char c = 49 + i}"
      then obtain c where c: "c \<in> set choice" "of_char c = 49 + i" by auto
      with i5 have "int (i + 0) = int (of_char c) - 49 \<and> c \<in> set choice \<and>
          of_char c \<in> ({49..53} :: nat set)" by simp
      then show "i \<in> {i. int (i + 0) \<in> set idxs}" using assms(2) by blast
    qed
  qed
  then show ?thesis by (simp only: enumerate_filter_nths)
qed

lemma player_draw_eq:
  assumes "length player = 5" and "5 \<le> length deck"
  shows "player_draw choice player deck =
    (if map py_lower choice = ''a'' then Inr (player, deck)
     else if choice = [] then Inr (take 5 (rev deck), take (length deck - 5) deck)
     else if \<exists>c \<in> set choice. of_char c \<in> ({178, 179, 185} :: nat set) then Inl ValueError
     else let kept = nths player {i. \<exists>c \<in> set choice. of_char c = 49 + i}
          in Inr (kept @ take (5 - length kept) (rev deck), take (length deck - (5 - length kept)) deck))"
proof (cases "map py_lower choice = ''a'' \<or> choice = [] \<or>
    (\<exists>c \<in> set choice. of_char c \<in> ({178, 179, 185} :: nat set))")
  case True
  then show ?thesis
    using assms by (auto simp: player_draw_def pop_cards_eq idxs_to_keep_def keep_digits_eq)
next
  case False
  then obtain idxs where idxs: "idxs_to_keep choice = Inr idxs"
    and set_idxs: "set idxs = {int (of_char c) - 49 | c. c \<in> set choice \<and> of_char c \<in> ({49..53} :: nat set)}"
    using idxs_to_keep_Inr by blast
  let ?kept = "nths player {i. \<exists>c \<in> set choice. of_char c = 49 + i}"
  have kept: "[c. (i, c) \<leftarrow> enumerate 0 player, int i \<in> set idxs] = ?kept"
    using assms(1) set_idxs by (rule kept_positions)
  have "5 - length ?kept \<le> length deck" using assms(2) by linarith
  then show ?thesis
    using False idxs by (simp add: player_draw_def kept pop_cards_eq Let_def)
qed

lemma length_nths_le: "length (nths xs A) \<le> length xs"
  using size_mset_mono [OF mset_nths_subseteq [of xs A]] by simp

lemma player_draw_inv:
  assumes "length player = 5" and "5 \<le> length deck"
    and "player_draw choice player deck = Inr (p', deck')"
  shows "length p' = 5 \<and> mset p' + mset deck' \<subseteq># mset player + mset deck \<and>
    length deck - 5 \<le> length deck'"
proof -
  note eq = player_draw_eq [OF assms(1,2), of choice]
  consider (keep_all) "map py_lower choice = ''a''"
    | (redraw) "map py_lower choice \<noteq> ''a''" "choice = []"
    | (some) "map py_lower choice \<noteq> ''a''" "choice \<noteq> []"
    by blast
  then show ?thesis
  proof cases
    case keep_all
    then show ?thesis using assms eq by simp
  next
    case redraw
    then have "p' = take 5 (rev deck)" and "deck' = take (length deck - 5) deck"
      using assms(3) eq by simp_all
    then show ?thesis using assms(2) mset_take_rev_take [of 5 deck] by simp
  next
    case some
    let ?kept = "nths player {i. \<exists>c \<in> set choice. of_char c = 49 + i}"
    define n where "n = 5 - length ?kept"
    have k: "length ?kept + n = 5" using length_nths_le [of player] assms(1) by (simp add: n_def)
    have p': "p' = ?kept @ take n (rev deck)" and d': "deck' = take (length deck - n) deck"
      using assms(3) eq some by (simp_all add: Let_def n_def split: if_splits)
    have n: "n \<le> length deck" using assms(2) k by linarith
    have "mset p' + mset deck' = mset ?kept + mset deck"
      using mset_take_rev_take [OF n] by (simp add: p' d' add.assoc)
    then have "mset p' + mset deck' \<subseteq># mset player + mset deck"
      by (simp only:) (rule subset_mset.add_right_mono [OF mset_nths_subseteq])
    moreover have "length p' = 5" using k n by (simp add: p')
    moreover have "length deck - 5 \<le> length deck'" using k by (simp add: d')
    ultimately show ?thesis by blast
  qed
qed

lemma player_draw_error:
  assumes "length player = 5" and "5 \<le> length deck"
    and "player_draw choice player deck = Inl e"
  shows "e = ValueError"
  using assms by (simp add: player_draw_eq Let_def split: if_splits)

lemma dealer_draw_inv:
  assumes "length dealer = 5" and "5 \<le> length deck"
  shows "\<exists>d' deck'. dealer_draw dealer deck = Inr (d', deck') \<and> length d' = 5 \<and>
    mset d' + mset deck' \<subseteq># mset dealer + mset deck \<and> length deck - 5 \<le> length deck'"
proof -
  let ?ds = "dealer_discard_strategy dealer"
  define n where "n = length ?ds"
  have d: "distinct ?ds" and lt: "\<forall>i \<in> set ?ds. i < length dealer"
    using dealer_discard_props [of dealer] by simp_all
  have len: "length (nths dealer (- set ?ds)) + n = 5"
    using length_nths_compl [OF d lt] assms(1) by (simp add: n_def)
  then have n: "n \<le> length deck" using assms(2) by linarith
  have eq: "dealer_draw dealer deck =
      Inr (nths dealer (- set ?ds) @ take n (rev deck), take (length deck - n) deck)"
    using assms by (simp add: dealer_draw_eq n_def)
  have "mset (nths dealer (- set ?ds) @ take n (rev deck)) + mset (take (length deck - n) deck) =
      mset (nths dealer (- set ?ds)) + mset deck"
    using mset_take_rev_take [OF n] by (simp add: add.assoc)
  then have "mset (nths dealer (- set ?ds) @ take n (rev deck)) + mset (take (length deck - n) deck)
      \<subseteq># mset dealer + mset deck"
    by (simp only:) (rule subset_mset.add_right_mono [OF mset_nths_subseteq])
  moreover have "length (nths dealer (- set ?ds) @ take n (rev deck)) = 5" using len n by simp
  moreover have "length deck - 5 \<le> length (take (length deck - n) deck)" using len by simp
  ultimately show ?thesis using eq by blast
qed

lemma deal_inv:
  assumes "10 \<le> length deck"
  shows "\<exists>p d k. deal deck = Inr (p, d, k) \<and> length p = 5 \<and> length d = 5 \<and>
    length k = length deck - 10 \<and> mset p + mset d + mset k = mset deck"
proof -
  obtain p k1 where p: "pop_cards 5 deck = Inr (p, k1)"
    using assms by (simp add: pop_cards_eq)
  from pop_cards_Inr [OF p] have pk: "mset p + mset k1 = mset deck" "length p = 5"
    "length k1 = length deck - 5" by blast+
  have "5 \<le> length k1" using assms pk(3) by simp
  then obtain d k where d: "pop_cards 5 k1 = Inr (d, k)"
    by (simp add: pop_cards_eq)
  from pop_cards_Inr [OF d] have dk: "mset d + mset k = mset k1" "length d = 5"
    "length k = length k1 - 5" by blast+
  have "deal deck = Inr (p, d, k)" by (simp add: deal_def p d)
  moreover have "mset p + mset d + mset k = mset deck" using pk(1) dk(1) by (simp add: add.assoc)
  ultimately show ?thesis using pk(2,3) dk(2,3) by auto
qed

lemma hand_name_index: "py_index HAND_NAMES (fst (evaluate h)) = Inr (HAND_NAMES ! nat (fst (evaluate h)))"
proof -
  have "0 \<le> fst (evaluate h)" and "fst (evaluate h) \<le> 8"
    using evaluate_category [of h] by simp_all
  then show ?thesis by (simp add: py_index_def HAND_NAMES_def)
qed

lemma resolve_Inl: "resolve p d t = Inl e \<Longrightarrow> e = TypeError"
  by (cases p; cases d) (auto simp: resolve_def split: sum.splits bool.splits if_splits
      dest: list_lt_error)

lemma length_create_deck: "create_deck d \<Longrightarrow> length d = 54"
  by (metis create_deck_def length_deck_order size_mset)

text \<open>Every round started from a deck returned by \<open>create_deck()\<close> ends in one of three
  ways: the input parsing raises \<open>ValueError\<close>, the comparison raises \<open>TypeError\<close>, or
  the round completes with two five-card hands drawn from the deck, the category names
  of their scores, and the settlement of those scores.\<close>

lemma play_round_cases:
  assumes "create_deck d"
  shows "play_round d line t = Inl ValueError \<or> play_round d line t = Inl TypeError \<or>
    (\<exists>r. play_round d line t = Inr r \<and>
      length (final_player r) = 5 \<and> length (final_dealer r) = 5 \<and>
      mset (final_player r) + mset (final_dealer r) \<subseteq># mset d \<and>
      player_name r = HAND_NAMES ! nat (fst (evaluate (final_player r))) \<and>
      dealer_name r = HAND_NAMES ! nat (fst (evaluate (final_dealer r))) \<and>
      resolve (evaluate (final_player r)) (evaluate (final_dealer r)) t =
        Inr (round_outcome r, round_tally r))"
proof -
  have "10 \<le> length d" using length_create_deck [OF assms] by simp
  from deal_inv [OF this] obtain p0 d0 k0 where deal: "deal d = Inr (p0, d0, k0)"
    and p0: "length p0 = 5" and d0: "length d0 = 5" and k0: "length k0 = 44"
    and m0: "mset p0 + mset d0 + mset k0 = mset d"
    using length_create_deck [OF assms] by auto
  have k05: "5 \<le> length k0" using k0 by simp
  show ?thesis
  proof (cases "player_draw (py_strip line) p0 k0")
    case (Inl e)
    then have "e = ValueError" using player_draw_error [OF p0 k05] by blast
    then show ?thesis using deal Inl by (simp add: play_round_def)
  next
    case (Inr pk)
    then obtain p1 k1 where pd: "player_draw (py_strip line) p0 k0 = Inr (p1, k1)"
      by (cases pk) auto
    from player_draw_inv [OF p0 k05 pd] have p1: "length p1 = 5"
      and m1: "mset p1 + mset k1 \<subseteq># mset p0 + mset k0" and "39 \<le> length k1"
      using k0 by auto
    then have "5 \<le> length k1" by simp
    from dealer_draw_inv [OF d0 this] obtain d1 k2 where dd: "dealer_draw d0 k1 = Inr (d1, k2)"
      and d1: "length d1 = 5" and m2: "mset d1 + mset k2 \<subseteq># mset d0 + mset k1"
      by auto
    have "mset p1 + mset d1 \<subseteq># mset p1 + (mset d1 + mset k2)" by simp
    also have "\<dots> \<subseteq># mset p1 + (mset d0 + mset k1)" using m2 by (rule subset_mset.add_left_mono)
    also have "\<dots> = mset d0 + (mset p1 + mset k1)" by (simp add: ac_simps)
    also have "\<dots> \<subseteq># mset d0 + (mset p0 + mset k0)" using m1 by (rule subset_mset.add_left_mono)
    also have "\<dots> = mset d" using m0 by (simp add: ac_simps)
    finally have m: "mset p1 + mset d1 \<subseteq># mset d" .
    show ?thesis
    proof (cases "resolve (evaluate p1) (evaluate d1) t")
      case (Inl e)
      then have "e = TypeError" by (rule resolve_Inl)
      then show ?thesis using deal pd dd Inl by (simp add: play_round_def hand_name_index)
    next
      case (Inr ot)
      then obtain oc t' where res: "resolve (evaluate p1) (evaluate d1) t = Inr (oc, t')"
        by (cases ot) auto
      then show ?thesis using deal pd dd p1 d1 m by (simp add: play_round_def hand_name_index)
    qed
  qed
qed

lemma nths_map_nth: "nths xs A = map ((!) xs) (filter (\<lambda>i. i \<in> A) [0..<length xs])"
proof (induction xs rule: rev_induct)
  case Nil
  then show ?case by simp
next
  case (snoc x xs)
  have "map ((!) (xs @ [x])) (filter (\<lambda>i. i \<in> A) [0..<length xs]) =
      map ((!) xs) (filter (\<lambda>i. i \<in> A) [0..<length xs])"
    by (rule map_cong) (auto simp: nth_append)
  then show ?case using snoc.IH by (simp add: nths_append)
qed

lemma digit_char_in_set:
  fixes i :: nat
  assumes "i < 5"
  shows "char_of (49 + i) \<in> set cs \<longleftrightarrow> (\<exists>c \<in> set cs. of_char c = 49 + i)"
proof
  assume "char_of (49 + i) \<in> set cs"
  moreover have "of_char (char_of (49 + i) :: char) = 49 + i" using assms by simp
  ultimately show "\<exists>c \<in> set cs. of_char c = 49 + i" by blast
next
  assume "\<exists>c \<in> set cs. of_char c = 49 + i"
  then obtain c where "c \<in> set cs" "of_char c = 49 + i" by blast
  then show "char_of (49 + i) \<in> set cs" by (metis char_of_char)
qed

lemma in_set_dropWhile: "c \<in> set xs \<Longrightarrow> \<not> P c \<Longrightarrow> c \<in> set (dropWhile P xs)"
  by (induction xs) auto

lemma in_set_py_strip:
  assumes "c \<in> set s" and "\<not> py_isspace c"
  shows "c \<in> set (py_strip s)"
proof -
  have "c \<in> set (rev (dropWhile py_isspace s))" using assms by (simp add: in_set_dropWhile)
  then have "c \<in> set (dropWhile py_isspace (rev (dropWhile py_isspace s)))"
    using assms(2) by (rule in_set_dropWhile)
  then show ?thesis by (simp add: py_strip_def)
qed

lemma superscript_lower:
  assumes "of_char c \<in> ({178, 179, 185} :: nat set)"
  shows "\<not> py_isspace c \<and> py_lower c = c \<and> c \<noteq> CHR ''a''"
  using assms by (auto simp: py_isspace_def py_lower_def)

lemma play_round_resolve:
  assumes "create_deck d" and "play_round d line t = Inr r"
  shows "resolve (evaluate (final_player r)) (evaluate (final_dealer r)) t =
    Inr (round_outcome r, round_tally r)"
  using play_round_cases [OF assms(1), of line t] assms(2) by auto

subsection \<open>Properties of a round\<close>

text \<open>C15. A round started from a deck returned by \<open>create_deck()\<close> never raises
  \<open>IndexError\<close>, whatever the player types: the deck holds enough cards for every
  \<open>deck.pop()\<close>, the dealer's \<open>dealer.pop(i)\<close> indices are valid, and the category
  indexes \<open>HAND_NAMES\<close>.\<close>

theorem play_round_no_index_error:
  assumes "create_deck d"
  shows "play_round d line t \<noteq> Inl IndexError"
  using play_round_cases [OF assms, of line t] by auto

theorem play_round_no_index_error_witness:
  "create_deck deck_order \<and> play_round deck_order ''  135 '' tally_init \<noteq> Inl IndexError"
proof -
  have d: "create_deck deck_order" by (simp add: create_deck_def)
  show ?thesis using play_round_no_index_error [OF d] d by blast
qed

text \<open>C16. When a round completes, the player and the dealer hold five cards each, all
  taken from the deck and none twice; the names printed are \<open>HAND_NAMES\<close> at the two
  categories; and the tally is updated by the settlement of the two scores.\<close>

theorem play_round_hands:
  assumes "create_deck d" and "play_round d line t = Inr r"
  shows "length (final_player r) = 5 \<and> length (final_dealer r) = 5 \<and>
    mset (final_player r) + mset (final_dealer r) \<subseteq># mset d \<and>
    player_name r = HAND_NAMES ! nat (fst (evaluate (final_player r))) \<and>
    dealer_name r = HAND_NAMES ! nat (fst (evaluate (final_dealer r))) \<and>
    resolve (evaluate (final_player r)) (evaluate (final_dealer r)) t =
      Inr (round_outcome r, round_tally r)"
  using play_round_cases [OF assms(1), of line t] assms(2) by auto

theorem play_round_hands_witness:
  "\<exists>r. create_deck deck_order \<and> play_round deck_order ''  135 '' tally_init = Inr r \<and>
     mset (final_player r) + mset (final_dealer r) \<subseteq># mset deck_order \<and>
     player_name r = ''Full House''"
proof -
  have d: "create_deck deck_order" by (simp add: create_deck_def)
  have "\<not> isl (play_round deck_order ''  135 '' tally_init)" by code_simp
  then obtain r where r: "play_round deck_order ''  135 '' tally_init = Inr r"
    by (cases "play_round deck_order ''  135 '' tally_init") auto
  have "map_sum id final_player (play_round deck_order ''  135 '' tally_init) =
      Inr [Joker, Card Ace Club, Card Ace Diamond, Card Queen Club, Card Queen Spade]"
    by code_simp
  then have fp: "final_player r = [Joker, Card Ace Club, Card Ace Diamond, Card Queen Club, Card Queen Spade]"
    using r by simp
  have ev: "fst (evaluate [Joker, Card Ace Club, Card Ace Diamond, Card Queen Club, Card Queen Spade]) = 6"
    by code_simp
  show ?thesis
    using play_round_hands [OF d r] d r fp ev by (auto simp: HAND_NAMES_def)
qed

text \<open>C17. Typing a superscript digit (\<open>'\<^sup>2'\<close>, \<open>'\<^sup>3'\<close> or \<open>'\<^sup>1'\<close>) at
  the prompt crashes the round with \<open>ValueError\<close>, whatever the deck: \<open>isdigit()\<close>
  accepts it, then \<open>int()\<close> rejects it.\<close>

theorem play_round_superscript_crash:
  assumes "create_deck d" and "\<exists>c \<in> set line. of_char c \<in> ({178, 179, 185} :: nat set)"
  shows "play_round d line t = Inl ValueError"
proof -
  obtain c where c: "c \<in> set line" "of_char c \<in> ({178, 179, 185} :: nat set)"
    using assms(2) by blast
  note sc = superscript_lower [OF c(2)]
  have cs: "c \<in> set (py_strip line)" using c(1) sc by (simp add: in_set_py_strip)
  have la: "map py_lower (py_strip line) \<noteq> ''a''"
  proof
    assume "map py_lower (py_strip line) = ''a''"
    then have "py_lower c \<in> set ''a''" using cs by (metis image_eqI set_map)
    with sc show False by simp
  qed
  have "10 \<le> length d" using length_create_deck [OF assms(1)] by simp
  from deal_inv [OF this] obtain p0 d0 k0 where deal: "deal d = Inr (p0, d0, k0)"
    and p0: "length p0 = 5" and k0: "length k0 = length d - 10"
    by auto
  have "5 \<le> length k0" using k0 length_create_deck [OF assms(1)] by simp
  then have "player_draw (py_strip line) p0 k0 = Inl ValueError"
    using player_draw_eq [OF p0] la cs c(2) by auto
  then show ?thesis using deal by (simp add: play_round_def)
qed

theorem play_round_superscript_crash_witness:
  "create_deck deck_order \<and> (\<exists>c \<in> set [char_of (178 :: nat)]. of_char c \<in> ({178, 179, 185} :: nat set)) \<and>
   play_round deck_order [char_of (178 :: nat)] tally_init = Inl ValueError"
proof -
  have d: "create_deck deck_order" by (simp add: create_deck_def)
  have s: "\<exists>c \<in> set [char_of (178 :: nat)]. of_char c \<in> ({178, 179, 185} :: nat set)" by simp
  show ?thesis using play_round_superscript_crash [OF d s] d s by blast
qed

text \<open>C18. With an input other than \<open>a\<close>, \<open>A\<close> or the empty line, and without
  superscript digits, the player keeps, in hand order, the cards whose position
  \<open>1..5\<close> occurs as a digit of the input, and draws the missing cards from the end of
  the deck.\<close>

theorem player_draw_keeps_chosen:
  assumes "length player = 5" and "5 \<le> length deck"
    and "choice \<noteq> []" and "map py_lower choice \<noteq> ''a''"
    and "\<forall>c \<in> set choice. of_char c \<notin> ({178, 179, 185} :: nat set)"
  shows "player_draw choice player deck =
    Inr (map ((!) player) (filter (\<lambda>i. char_of (49 + i) \<in> set choice) [0..<5]) @
           take (5 - length (filter (\<lambda>i. char_of (49 + i) \<in> set choice) [0..<5])) (rev deck),
         take (length deck - (5 - length (filter (\<lambda>i. char_of (49 + i) \<in> set choice) [0..<5]))) deck)"
proof -
  have f: "filter (\<lambda>i. i \<in> {i. \<exists>c \<in> set choice. of_char c = 49 + i}) [0..<5] =
      filter (\<lambda>i. char_of (49 + i) \<in> set choice) [0..<5]"
    by (rule filter_cong) (simp_all add: digit_char_in_set)
  have "nths player {i. \<exists>c \<in> set choice. of_char c = 49 + i} =
      map ((!) player) (filter (\<lambda>i. char_of (49 + i) \<in> set choice) [0..<5])"
    using assms(1) f by (simp add: nths_map_nth)
  moreover have "length (nths player {i. \<exists>c \<in> set choice. of_char c = 49 + i}) =
      length (filter (\<lambda>i. char_of (49 + i) \<in> set choice) [0..<5])"
    using assms(1) f by (simp add: nths_map_nth)
  ultimately show ?thesis
    using assms by (simp add: player_draw_eq Let_def)
qed

theorem player_draw_keeps_chosen_witness:
  "length [Card Two Heart, Card Three Heart, Card Four Heart, Card Five Heart, Card Six Heart] = 5 \<and>
   5 \<le> length [Card Ace Spade, Card King Spade, Card Queen Spade, Card Jack Spade, Card Ten Spade] \<and>
   ''315'' \<noteq> [] \<and> map py_lower ''315'' \<noteq> ''a'' \<and>
   player_draw ''315'' [Card Two Heart, Card Three Heart, Card Four Heart, Card Five Heart, Card Six Heart]
     [Card Ace Spade, Card King Spade, Card Queen Spade, Card Jack Spade, Card Ten Spade] =
   Inr ([Card Two Heart, Card Four Heart, Card Six Heart, Card Ten Spade, Card Jack Spade],
        [Card Ace Spade, Card King Spade, Card Queen Spade])"
proof -
  have h: "length [Card Two Heart, Card Three Heart, Card Four Heart, Card Five Heart, Card Six Heart] = 5"
    "5 \<le> length [Card Ace Spade, Card King Spade, Card Queen Spade, Card Jack Spade, Card Ten Spade]"
    "''315'' \<noteq> []" "map py_lower ''315'' \<noteq> ''a''"
    "\<forall>c \<in> set ''315''. of_char c \<notin> ({178, 179, 185} :: nat set)"
    by (simp_all add: py_lower_def)
  have f: "filter (\<lambda>i. char_of (49 + i) \<in> set ''315'') [0..<5] = [0, 2, 4]"
    by code_simp
  show ?thesis using player_draw_keeps_chosen [OF h] h f by simp
qed

text \<open>C19. The dealer keeps, in hand order, the cards spec section 4.3 keeps, and
  receives one card from the end of the deck for each discard: popping the discards
  highest index first keeps the remaining indices valid.\<close>

theorem dealer_draw_spec:
  assumes "length dealer \<le> length deck"
  shows "dealer_draw dealer deck =
    Inr (map ((!) dealer) (filter (\<lambda>i. i \<notin> set (discard_spec dealer)) [0..<length dealer]) @
           take (length (discard_spec dealer)) (rev deck),
         take (length deck - length (discard_spec dealer)) deck)"
  using dealer_draw_eq [OF assms] by (simp add: dealer_discard_eq_spec nths_map_nth)

theorem dealer_draw_spec_witness:
  "length [Card Two Heart, Card Seven Club, Card Nine Diamond, Card King Spade, Joker] \<le>
     length [Card Ace Spade, Card Five Club, Card Queen Heart, Card Jack Spade, Card Ten Spade] \<and>
   dealer_draw [Card Two Heart, Card Seven Club, Card Nine Diamond, Card King Spade, Joker]
     [Card Ace Spade, Card Five Club, Card Queen Heart, Card Jack Spade, Card Ten Spade] =
   Inr ([Card King Spade, Joker, Card Ten Spade, Card Jack Spade, Card Queen Heart],
        [Card Ace Spade, Card Five Club])"
proof -
  have l: "length [Card Two Heart, Card Seven Club, Card Nine Diamond, Card King Spade, Joker] \<le>
     length [Card Ace Spade, Card Five Club, Card Queen Heart, Card Jack Spade, Card Ten Spade]" by simp
  have ds: "discard_spec [Card Two Heart, Card Seven Club, Card Nine Diamond, Card King Spade, Joker] = [0, 1, 2]"
    by code_simp
  show ?thesis using dealer_draw_spec [OF l] l ds by (simp add: upt_rec)
qed

text \<open>C30. A poker session plays the rounds in order, each from the tally the previous
  round left, up to and including the first round answered \<open>n\<close> (in any case), and
  ends there with the result of those rounds: their final tally, or the exception of
  the first round that raised.\<close>

theorem poker_game_plays_until_n:
  assumes "rounds = pre @ (deck, line, again) # post"
    and "\<forall>(d, l, a) \<in> set pre. map py_lower a \<noteq> ''n''" and "map py_lower again = ''n''"
  shows "poker_game rounds t = Some (play_rounds (pre @ [(deck, line, again)]) t)"
  using assms(2)
  unfolding assms(1)
proof (induction pre arbitrary: t)
  case Nil
  with assms(3) show ?case by (simp add: py_bind_def split: sum.split)
next
  case (Cons x pre)
  obtain d l a where x: "x = (d, l, a)" by (cases x)
  with Cons show ?case by (simp add: py_bind_def split: sum.split)
qed

theorem poker_game_plays_until_n_witness:
  "[(deck_order, ''a'', ''y''), (deck_order, ''  135 '', ''N'')] =
     [(deck_order, ''a'', ''y'')] @ (deck_order, ''  135 '', ''N'') # [] \<and>
   map py_lower ''y'' \<noteq> ''n'' \<and> map py_lower ''N'' = ''n'' \<and>
   poker_game [(deck_order, ''a'', ''y''), (deck_order, ''  135 '', ''N'')] tally_init =
     Some (play_rounds [(deck_order, ''a'', ''y''), (deck_order, ''  135 '', ''N'')] tally_init)"
proof -
  have a: "map py_lower ''y'' \<noteq> ''n''" by code_simp
  have b: "map py_lower ''N'' = ''n''" by code_simp
  have "\<forall>(d, l, a) \<in> set [(deck_order, ''a'', ''y'')]. map py_lower a \<noteq> ''n''" using a by simp
  from poker_game_plays_until_n [OF _ this b, of "[(deck_order, ''a'', ''y''), (deck_order, ''  135 '', ''N'')]"
      deck_order "''  135 ''" "[]" tally_init] a b
  show ?thesis by simp
qed
end
