(* ===== verification/Blackjack.thy ===== *)
theory Blackjack
  imports Cards
begin

text \<open>
  The blackjack game of src/GAMBLING!! (1)/Modules/BBlackjack.py. \<open>game()\<close> keeps its
  state in local variables (\<open>player_coins\<close>, \<open>last_bet\<close>, \<open>was_push\<close>,
  \<open>current_bet_coins\<close>) and in the attributes \<open>pcoins\<close> and \<open>gambledfunds\<close> of the
  module \<open>scorekeeper\<close>, which is not part of the repository; together they are the
  record \<open>bj_state\<close>. A card is a \<open>(face, suit)\<close> pair with the faces of \<open>cards\<close>
  (the strings of \<open>RANK_ORDER\<close>). The random draws (\<open>random.choice\<close>,
  \<open>random.randint(17, 19)\<close>) and the lines typed at the prompts are parameters: a
  list of drawn cards and a list of input lines. A loop that needs one more card or
  one more line than the lists hold returns \<open>None\<close>; code that raises returns
  \<open>Inl\<close>.
\<close>

type_synonym bj_card = "face \<times> suit"

subsection \<open>Scoring a hand\<close>

text \<open>\<open>str.isdigit()\<close> on a whole string.\<close>

definition py_str_isdigit :: "string \<Rightarrow> bool" where
  "py_str_isdigit s \<longleftrightarrow> s \<noteq> [] \<and> list_all py_isdigit s"

text \<open>Lines 105--111: the points of the cards other than aces, and the number of aces.\<close>

definition count_cards :: "bj_card list \<Rightarrow> int \<times> nat" where
  "count_cards hand =
     fold (\<lambda>(face, _) (score, aces).
             if py_str_isdigit (face_str face) then (score + decimal_value (face_str face), aces)
             else if face_str face \<in> {''J'', ''Q'', ''K''} then (score + 10, aces)
             else (score, aces + 1))
       hand (0, 0)"

text \<open>\<open>calc_score(hand)\<close> (lines 102--117): each ace in turn counts 11 if that keeps
  the score at most 21, and 1 otherwise.\<close>

definition calc_score :: "bj_card list \<Rightarrow> int" where
  "calc_score hand =
     (let (score, aces) = count_cards hand
      in fold (\<lambda>_ score. if score + 11 \<le> 21 then score + 11 else score + 1) [0..<aces] score)"

text \<open>The value of a hand by the rules of blackjack, independently of the code:
  number cards count their number, \<open>J\<close>, \<open>Q\<close>, \<open>K\<close> count 10 and an ace counts 1;
  one ace counts 11 instead when that keeps the hand at most 21.\<close>

primrec bj_rank :: "face \<Rightarrow> int" where
  "bj_rank Two = 2" | "bj_rank Three = 3" | "bj_rank Four = 4" | "bj_rank Five = 5"
| "bj_rank Six = 6" | "bj_rank Seven = 7" | "bj_rank Eight = 8" | "bj_rank Nine = 9"
| "bj_rank Ten = 10" | "bj_rank Jack = 10" | "bj_rank Queen = 10" | "bj_rank King = 10"
| "bj_rank Ace = 1"

definition bj_value :: "bj_card list \<Rightarrow> int" where
  "bj_value hand =
     (let hard = sum_list (map (\<lambda>(face, _). bj_rank face) hand)
      in if list_ex (\<lambda>(face, _). face = Ace) hand \<and> hard + 10 \<le> 21 then hard + 10 else hard)"

subsection \<open>Coins\<close>

datatype coin = Coin5 | Coin1

text \<open>The dictionary \<open>coins\<close> (line 34), in insertion order.\<close>

definition coins_table :: "(coin \<times> int) list" where
  "coins_table = [(Coin5, 5), (Coin1, 1)]"

text \<open>Lines 58--64: the coins shown for a bet, largest first.\<close>

definition coin_breakdown :: "int \<Rightarrow> coin list" where
  "coin_breakdown bet =
     fst (fold (\<lambda>(coin, value) (coin_list, remaining).
                  let count = remaining div value
                  in (coin_list @ replicate (nat count) coin, remaining - count * value))
            (sort_key (\<lambda>x. - snd x) coins_table) ([], bet))"

definition coin_value :: "coin \<Rightarrow> int" where
  "coin_value c = the (map_of coins_table c)"

declare py_str_isdigit_def [eval_defs] count_cards_def [eval_defs] calc_score_def [eval_defs]
  bj_value_def [eval_defs] coins_table_def [eval_defs] coin_breakdown_def [eval_defs]
  coin_value_def [eval_defs]

subsection \<open>Betting\<close>

text \<open>\<open>int(s)\<close> of a whole input line: surrounding whitespace, an optional sign, and
  ASCII digits with single underscores between them.\<close>

definition py_ascii_digit :: "char \<Rightarrow> bool" where
  "py_ascii_digit c \<longleftrightarrow> of_char c \<in> ({48..57} :: nat set)"

fun digits_us :: "string \<Rightarrow> bool" where
  "digits_us [] = False"
| "digits_us [c] = py_ascii_digit c"
| "digits_us (c # d # cs) =
     (py_ascii_digit c \<and> (if d = CHR ''_'' then digits_us cs else digits_us (d # cs)))"

definition py_int_str :: "string \<Rightarrow> py_error + int" where
  "py_int_str s =
     (let t = py_strip s;
          (neg, body) = (case t of [] \<Rightarrow> (False, [])
                           | c # r \<Rightarrow> if c = CHR ''-'' then (True, r)
                                     else if c = CHR ''+'' then (False, r) else (False, t))
      in if digits_us body
         then Inr ((if neg then -1 else 1) * decimal_value (filter (\<lambda>c. c \<noteq> CHR ''_'') body))
         else Inl ValueError)"

text \<open>\<open>place_bet()\<close> (lines 47--64): read lines until one is an integer in
  \<open>1..player_coins\<close> (the bare \<open>except\<close> swallows every error, so a bad line is
  skipped), take the bet from the coins and return it with its coins. The result is the
  bet, the remaining coins, the coin list and the unread lines.\<close>

fun place_bet :: "int \<Rightarrow> string list \<Rightarrow> (int \<times> int \<times> coin list \<times> string list) option" where
  "place_bet player_coins [] = None"
| "place_bet player_coins (line # lines) =
     (case py_int_str line of
        Inr bet \<Rightarrow>
          if 1 \<le> bet \<and> bet \<le> player_coins
          then Some (bet, player_coins - bet, coin_breakdown bet, lines)
          else place_bet player_coins lines
      | Inl _ \<Rightarrow> place_bet player_coins lines)"

text \<open>A line that \<open>place_bet\<close> accepts when the player holds \<open>c\<close> coins.\<close>

definition valid_bet :: "int \<Rightarrow> string \<Rightarrow> bool" where
  "valid_bet c line = (case py_int_str line of Inr bet \<Rightarrow> 1 \<le> bet \<and> bet \<le> c | Inl _ \<Rightarrow> False)"

subsection \<open>Drawing cards\<close>

text \<open>Lines 198--207: the player hits on any line other than \<open>s\<close> and stops after
  a card that takes the score over 21.\<close>

fun player_turn :: "string list \<Rightarrow> bj_card list \<Rightarrow> bj_card list \<Rightarrow>
    (bj_card list \<times> string list \<times> bj_card list) option" where
  "player_turn [] hand draws = None"
| "player_turn (cmd # cmds) hand draws =
     (if map py_lower (py_strip cmd) = ''s'' then Some (hand, cmds, draws)
      else case draws of [] \<Rightarrow> None
        | c # draws' \<Rightarrow>
            if 21 < calc_score (hand @ [c]) then Some (hand @ [c], cmds, draws')
            else player_turn cmds (hand @ [c]) draws')"

text \<open>Lines 211--216: the dealer draws while the score is below the target.\<close>

fun dealer_turn :: "int \<Rightarrow> bj_card list \<Rightarrow> bj_card list \<Rightarrow> (bj_card list \<times> bj_card list) option" where
  "dealer_turn target hand [] = (if calc_score hand < target then None else Some (hand, []))"
| "dealer_turn target hand (c # cs) =
     (if calc_score hand < target then dealer_turn target (hand @ [c]) cs else Some (hand, c # cs))"

subsection \<open>The game state and a round\<close>

record bj_state =
  player_coins :: int
  last_bet :: "int option"
  was_push :: bool
  current_bet_coins :: "coin list"
  pcoins :: int
  gambledfunds :: int

datatype bj_outcome = PlayerBust | PlayerWins | BjPush | DealerWins

text \<open>Lines 188--194: a fresh bet, or after a push the previous bet again.\<close>

definition take_bet :: "string list \<Rightarrow> bj_state \<Rightarrow> (py_error + int \<times> bj_state \<times> string list) option" where
  "take_bet lines st =
     (if \<not> was_push st
      then map_option (\<lambda>(bet, coins, coin_list, rest).
             Inr (bet, st\<lparr>player_coins := coins, current_bet_coins := coin_list,
                         last_bet := Some (bet * 2)\<rparr>, rest))
             (place_bet (player_coins st) lines)
      else case last_bet st of
             None \<Rightarrow> Some (Inl TypeError)
           | Some lb \<Rightarrow> Some (Inr (lb div 2, st\<lparr>was_push := False\<rparr>, lines)))"

text \<open>Lines 218--234.\<close>

definition settle :: "int \<Rightarrow> int \<Rightarrow> int \<Rightarrow> bj_state \<Rightarrow> bj_outcome \<times> bj_state" where
  "settle ps ds bet_amount st =
     (if 21 < ps then (PlayerBust, st\<lparr>last_bet := None\<rparr>)
      else if 21 < ds \<or> ds < ps
      then (PlayerWins, st\<lparr>player_coins := player_coins st + bet_amount * 2, last_bet := None\<rparr>)
      else if ps = ds
      then (BjPush, st\<lparr>player_coins := player_coins st + bet_amount, was_push := True\<rparr>)
      else (DealerWins, st\<lparr>last_bet := None\<rparr>))"

text \<open>Lines 218--239: settle, save the coins to \<open>scorekeeper.pcoins\<close>, and wait
  for the final \<open>input()\<close>.\<close>

definition end_round :: "bj_card list \<Rightarrow> bj_card list \<Rightarrow> bj_card list \<Rightarrow> string list \<Rightarrow>
    int \<Rightarrow> bj_state \<Rightarrow> (py_error + bj_outcome \<times> bj_state \<times> bj_card list \<times> string list) option" where
  "end_round player_hand dealer_hand draws lines bet_amount st =
     (let (oc, st) = settle (calc_score player_hand) (calc_score dealer_hand) bet_amount st;
          st = st\<lparr>pcoins := player_coins st\<rparr>
      in case lines of [] \<Rightarrow> None | _ # lines \<Rightarrow> Some (Inr (oc, st, draws, lines)))"

text \<open>Lines 196--239, after the bet: the player's turn, the dealer's turn unless the
  player has bust, and the end of the round.\<close>

definition finish_round :: "int \<Rightarrow> bj_card list \<Rightarrow> bj_card list \<Rightarrow> bj_card list \<Rightarrow> string list \<Rightarrow>
    int \<Rightarrow> bj_state \<Rightarrow> (py_error + bj_outcome \<times> bj_state \<times> bj_card list \<times> string list) option" where
  "finish_round dealer_target player_hand dealer_hand draws lines bet_amount st =
     Option.bind (player_turn lines player_hand draws) (\<lambda>(player_hand, lines, draws).
     Option.bind (if calc_score player_hand \<le> 21 then dealer_turn dealer_target dealer_hand draws
                  else Some (dealer_hand, draws)) (\<lambda>(dealer_hand, draws).
       end_round player_hand dealer_hand draws lines bet_amount st))"

text \<open>Lines 177--239: one round after the bankruptcy check, from the dealer's target,
  the cards drawn (two to the player and two to the dealer alternately, then the hits)
  and the input lines.\<close>

definition bj_round :: "int \<Rightarrow> bj_card list \<Rightarrow> string list \<Rightarrow> bj_state \<Rightarrow>
    (py_error + bj_outcome \<times> bj_state \<times> bj_card list \<times> string list) option" where
  "bj_round dealer_target draws lines st =
     (case draws of
        p1 # d1 # p2 # d2 # draws \<Rightarrow>
          (case take_bet lines st of
             None \<Rightarrow> None
           | Some (Inl e) \<Rightarrow> Some (Inl e)
           | Some (Inr (bet_amount, st, lines)) \<Rightarrow>
               finish_round dealer_target [p1, p2] [d1, d2] draws lines bet_amount st)
      | _ \<Rightarrow> None)"

declare valid_bet_def [eval_defs] py_ascii_digit_def [eval_defs] py_int_str_def [eval_defs] take_bet_def [eval_defs]
  settle_def [eval_defs] end_round_def [eval_defs] finish_round_def [eval_defs] bj_round_def [eval_defs]

subsection \<open>The game loop\<close>

datatype bj_phase = Playing bj_state | Over bj_state

text \<open>Entering \<open>game()\<close> (lines 31--35 and 146--148): the coins are read from
  \<open>scorekeeper.pcoins\<close> and the round variables start afresh.\<close>

definition game_init :: "bj_state \<Rightarrow> bj_state" where
  "game_init st = st\<lparr>player_coins := pcoins st, last_bet := None, was_push := False,
                     current_bet_coins := []\<rparr>"

text \<open>Lines 151--176, when \<open>player_coins <= 0\<close>: the first time, the player may
  accept 50 coins of college funds and \<open>game()\<close> starts again; otherwise the loop
  ends.\<close>

definition bankrupt :: "string list \<Rightarrow> bj_state \<Rightarrow> (bj_phase \<times> string list) option" where
  "bankrupt lines st =
     (if gambledfunds st < 1
      then (case lines of
              [] \<Rightarrow> None
            | line # rest \<Rightarrow>
                (let st = st\<lparr>gambledfunds := gambledfunds st + 1\<rparr>
                 in if map py_lower (py_strip line) \<in> {''yes'', ''yea'', ''yeah''}
                    then Some (Playing (game_init (st\<lparr>pcoins := 50\<rparr>)), rest)
                    else Some (Over st, rest)))
      else Some (Over st, lines))"

text \<open>One iteration of \<open>while True\<close> (lines 150--239).\<close>

definition bj_iteration :: "int \<Rightarrow> bj_card list \<Rightarrow> string list \<Rightarrow> bj_state \<Rightarrow>
    (py_error + bj_phase \<times> bj_card list \<times> string list) option" where
  "bj_iteration dealer_target draws lines st =
     (if player_coins st \<le> 0
      then map_option (\<lambda>(ph, lines). Inr (ph, draws, lines)) (bankrupt lines st)
      else map_option (map_sum id (\<lambda>(oc, st, draws, lines). (Playing st, draws, lines)))
             (bj_round dealer_target draws lines st))"

text \<open>The states a session reaches from \<open>scorekeeper.pcoins = p\<close> and
  \<open>scorekeeper.gambledfunds = g\<close>, whatever the draws and the input, with a dealer
  target in \<open>17..19\<close> (\<open>random.randint(17, 19)\<close>).\<close>

inductive bj_reachable :: "int \<Rightarrow> int \<Rightarrow> bj_phase \<Rightarrow> bool" for p g where
  start: "bj_reachable p g (Playing (game_init \<lparr>player_coins = p, last_bet = None, was_push = False,
            current_bet_coins = [], pcoins = p, gambledfunds = g\<rparr>))"
| step: "bj_reachable p g (Playing st) \<Longrightarrow> 17 \<le> target \<Longrightarrow> target \<le> 19 \<Longrightarrow>
    bj_iteration target draws lines st = Some (Inr (ph, draws', lines')) \<Longrightarrow> bj_reachable p g ph"

text \<open>The same states, with the number of college-funds restarts taken to reach them
  (the \<open>return game()\<close> of line 171): a step that finds the coins at 0 or below and
  goes on playing is a restart.\<close>

inductive bj_restarts :: "int \<Rightarrow> int \<Rightarrow> nat \<Rightarrow> bj_phase \<Rightarrow> bool" for p g where
  start: "bj_restarts p g 0 (Playing (game_init \<lparr>player_coins = p, last_bet = None, was_push = False,
            current_bet_coins = [], pcoins = p, gambledfunds = g\<rparr>))"
| step: "bj_restarts p g n (Playing st) \<Longrightarrow> 17 \<le> target \<Longrightarrow> target \<le> 19 \<Longrightarrow>
    bj_iteration target draws lines st = Some (Inr (ph, draws', lines')) \<Longrightarrow>
    bj_restarts p g (if player_coins st \<le> 0 \<and> (case ph of Playing _ \<Rightarrow> True | Over _ \<Rightarrow> False)
                     then Suc n else n) ph"

declare game_init_def [eval_defs] bankrupt_def [eval_defs] bj_iteration_def [eval_defs]

text \<open>The invariant of the game state: after a push the bet to repeat is a positive
  even number (so \<open>last_bet // 2\<close> is defined and positive), and the coins saved in
  \<open>scorekeeper.pcoins\<close> are the coins of the game.\<close>

definition bj_inv :: "bj_state \<Rightarrow> bool" where
  "bj_inv st \<longleftrightarrow>
     (was_push st \<longrightarrow> (case last_bet st of None \<Rightarrow> False | Some lb \<Rightarrow> 2 \<le> lb \<and> even lb)) \<and>
     pcoins st = player_coins st"

declare bj_inv_def [eval_defs]

subsection \<open>Lemmas on scoring\<close>

text \<open>The points a non-ace card adds.\<close>

definition card_points :: "face \<Rightarrow> int" where
  "card_points f = (if f = Ace then 0 else min 10 (face_value f))"

lemma count_cards_step:
  "(if py_str_isdigit (face_str f) then (s + decimal_value (face_str f), a)
    else if face_str f \<in> {''J'', ''Q'', ''K''} then (s + 10, a) else (s, a + 1)) =
   (s + card_points f, if f = Ace then a + 1 else a)"
  by (cases f) (simp_all add: py_str_isdigit_def py_isdigit_def decimal_value_def card_points_def)

lemma count_cards_fold:
  "fold (\<lambda>(face, _) (score, aces).
          if py_str_isdigit (face_str face) then (score + decimal_value (face_str face), aces)
          else if face_str face \<in> {''J'', ''Q'', ''K''} then (score + 10, aces)
          else (score, aces + 1)) hand (s, a) =
   (s + sum_list (map (card_points \<circ> fst) hand), a + length (filter (\<lambda>c. fst c = Ace) hand))"
  by (induction hand arbitrary: s a) (auto simp: count_cards_step)

lemma count_cards_eq:
  "count_cards hand =
     (sum_list (map (card_points \<circ> fst) hand), length (filter (\<lambda>c. fst c = Ace) hand))"
  by (simp add: count_cards_def count_cards_fold)

lemma card_points_range: "0 \<le> card_points f \<and> card_points f \<le> 10"
  by (cases f) (simp_all add: card_points_def)

lemma count_cards_nonneg: "0 \<le> fst (count_cards hand)"
  unfolding count_cards_eq fst_conv by (rule sum_list_nonneg) (auto simp: card_points_range)

lemma ace_fold:
  assumes "0 \<le> s"
  shows "fold (\<lambda>_ score. if score + 11 \<le> 21 then score + 11 else score + 1) [0..<a] s =
    (if 0 < a \<and> s \<le> 10 then s + int a + 10 else s + int a)"
  using assms by (induction a) auto

lemma calc_score_eq:
  "calc_score hand =
     (let (s, a) = count_cards hand in if 0 < a \<and> s \<le> 10 then s + int a + 10 else s + int a)"
proof -
  obtain s a where c: "count_cards hand = (s, a)" by (cases "count_cards hand")
  have "0 \<le> s" using count_cards_nonneg [of hand] c by simp
  then show ?thesis by (simp only: calc_score_def c Let_def prod.case ace_fold)
qed

lemma bj_rank_points: "bj_rank f = card_points f + (if f = Ace then 1 else 0)"
  by (cases f) (simp_all add: card_points_def)

lemma bj_value_eq:
  "bj_value hand =
     (let (s, a) = count_cards hand in if 0 < a \<and> s + int a + 10 \<le> 21 then s + int a + 10 else s + int a)"
proof -
  have "sum_list (map (\<lambda>(face, _). bj_rank face) hand) =
      sum_list (map (card_points \<circ> fst) hand) + int (length (filter (\<lambda>c. fst c = Ace) hand))"
    by (induction hand) (auto simp: bj_rank_points)
  moreover have "list_ex (\<lambda>(face, _). face = Ace) hand \<longleftrightarrow> 0 < length (filter (\<lambda>c. fst c = Ace) hand)"
    by (induction hand) auto
  ultimately show ?thesis by (simp add: bj_value_def count_cards_eq Let_def)
qed

subsection \<open>Lemmas on coins\<close>

lemma coin_breakdown_eq:
  "coin_breakdown bet = replicate (nat (bet div 5)) Coin5 @ replicate (nat (bet mod 5)) Coin1"
  by (simp add: coin_breakdown_def coins_table_def Let_def minus_div_mult_eq_mod)

subsection \<open>Lemmas on the draw loops\<close>

text \<open>The total with every ace counted 1.\<close>

definition hard_total :: "bj_card list \<Rightarrow> int" where
  "hard_total hand = fst (count_cards hand) + int (snd (count_cards hand))"

lemma calc_score_ge_hard: "hard_total hand \<le> calc_score hand"
  by (simp add: calc_score_eq hard_total_def split: prod.split)

lemma card_points_pos: "f \<noteq> Ace \<Longrightarrow> 2 \<le> card_points f"
  by (cases f) (simp_all add: card_points_def)

lemma hard_total_snoc: "hard_total hand + 1 \<le> hard_total (hand @ [c])"
  using card_points_pos [of "fst c"] by (cases "fst c = Ace") (auto simp: hard_total_def count_cards_eq card_points_def)

lemma dealer_turn_Some:
  assumes "nat (target - hard_total hand) \<le> length draws"
  shows "\<exists>h rest added. dealer_turn target hand draws = Some (h, rest) \<and> target \<le> calc_score h \<and>
    h = hand @ added \<and> draws = added @ rest"
  using assms
proof (induction draws arbitrary: hand)
  case Nil
  then have "target \<le> calc_score hand" using calc_score_ge_hard [of hand] by simp
  then show ?case by auto
next
  case (Cons c cs)
  show ?case
  proof (cases "calc_score hand < target")
    case True
    have "nat (target - hard_total (hand @ [c])) \<le> length cs"
      using Cons.prems hard_total_snoc [of hand c] by simp
    from Cons.IH [OF this] obtain h rest added where
      "dealer_turn target (hand @ [c]) cs = Some (h, rest)" "target \<le> calc_score h"
      "h = hand @ [c] @ added" "cs = added @ rest" by auto
    with True show ?thesis by (intro exI [of _ h] exI [of _ rest] exI [of _ "c # added"]) simp
  next
    case False
    then show ?thesis by auto
  qed
qed

subsection \<open>Lemmas on a round\<close>

lemma place_bet_Some:
  assumes "place_bet c lines = Some (bet, c', cl, rest)"
  shows "1 \<le> bet \<and> bet \<le> c \<and> c' = c - bet \<and> cl = coin_breakdown bet"
  using assms by (induction c lines rule: place_bet.induct) (auto split: sum.splits if_splits)

lemma take_bet_Inl: "take_bet lines st = Some (Inl e) \<Longrightarrow> was_push st \<and> last_bet st = None"
  by (cases "was_push st"; cases "last_bet st") (auto simp: take_bet_def)
lemma end_round_Some:
  assumes "end_round ph dh draws lines bet st = Some r"
  shows "\<exists>oc st2 draws' lines'. r = Inr (oc, st2\<lparr>pcoins := player_coins st2\<rparr>, draws', lines') \<and>
    settle (calc_score ph) (calc_score dh) bet st = (oc, st2)"
  using assms
  by (cases "settle (calc_score ph) (calc_score dh) bet st"; cases lines) (auto simp: end_round_def)
lemma finish_round_Some:
  assumes "finish_round target ph dh draws lines bet st = Some r"
  shows "\<exists>oc st2 ps ds draws' lines'. r = Inr (oc, st2\<lparr>pcoins := player_coins st2\<rparr>, draws', lines') \<and>
    settle ps ds bet st = (oc, st2)"
proof -
  from assms obtain ph' l1 d1 dh' d2 where "end_round ph' dh' d2 l1 bet st = Some r"
    unfolding finish_round_def by (auto simp: bind_eq_Some_conv)
  from end_round_Some [OF this] show ?thesis by blast
qed
lemma take_bet_fresh:
  assumes "take_bet lines st = Some (Inr (bet, st1, rest))" and "\<not> was_push st"
  shows "1 \<le> bet \<and> bet \<le> player_coins st \<and> player_coins st1 = player_coins st - bet \<and>
    last_bet st1 = Some (bet * 2) \<and> \<not> was_push st1 \<and> gambledfunds st1 = gambledfunds st"
proof -
  from assms obtain c' cl where pb: "place_bet (player_coins st) lines = Some (bet, c', cl, rest)"
    and st1: "st1 = st\<lparr>player_coins := c', current_bet_coins := cl, last_bet := Some (bet * 2)\<rparr>"
    by (auto simp: take_bet_def)
  from place_bet_Some [OF pb] show ?thesis using assms(2) by (simp add: st1)
qed
lemma take_bet_again:
  assumes "take_bet lines st = Some (Inr (bet, st1, rest))" and "was_push st"
  shows "\<exists>lb. last_bet st = Some lb \<and> bet = lb div 2 \<and> st1 = st\<lparr>was_push := False\<rparr> \<and> rest = lines"
  using assms by (cases "last_bet st") (auto simp: take_bet_def)

lemma bj_round_Inr:
  assumes "bj_round target draws lines st = Some (Inr (oc, st', draws', lines'))"
  shows "\<exists>bet st1 lines1 ps ds st2. take_bet lines st = Some (Inr (bet, st1, lines1)) \<and>
    settle ps ds bet st1 = (oc, st2) \<and> st' = st2\<lparr>pcoins := player_coins st2\<rparr>"
proof -
  obtain p1 d1 p2 d2 dr where dr: "draws = p1 # d1 # p2 # d2 # dr"
    using assms by (auto simp: bj_round_def split: list.splits)
  obtain bet st1 lines1 where tb: "take_bet lines st = Some (Inr (bet, st1, lines1))"
    and fr: "finish_round target [p1, p2] [d1, d2] dr lines1 bet st1 = Some (Inr (oc, st', draws', lines'))"
    using assms dr by (auto simp: bj_round_def split: option.splits sum.splits)
  from finish_round_Some [OF fr] tb show ?thesis by auto
qed

lemma bj_round_Inl: "bj_round target draws lines st = Some (Inl e) \<Longrightarrow> take_bet lines st = Some (Inl e)"
  using finish_round_Some [of target _ _ _ _ _ _ "Inl e"]
  by (auto simp: bj_round_def split: list.splits option.splits sum.splits)

lemma settle_cases:
  assumes "settle ps ds bet st1 = (oc, st2)"
  shows "(oc = PlayerBust \<and> st2 = st1\<lparr>last_bet := None\<rparr>) \<or>
    (oc = PlayerWins \<and> st2 = st1\<lparr>player_coins := player_coins st1 + bet * 2, last_bet := None\<rparr>) \<or>
    (oc = BjPush \<and> st2 = st1\<lparr>player_coins := player_coins st1 + bet, was_push := True\<rparr>) \<or>
    (oc = DealerWins \<and> st2 = st1\<lparr>last_bet := None\<rparr>)"
  using assms by (auto simp: settle_def split: if_splits)

subsection \<open>The invariant of the game\<close>

lemma bj_round_inv:
  assumes "bj_inv st" and "bj_round target draws lines st = Some (Inr (oc, st', draws', lines'))"
  shows "bj_inv st' \<and> (0 \<le> player_coins st \<longrightarrow> 0 \<le> player_coins st')"
proof -
  from bj_round_Inr [OF assms(2)] obtain bet st1 lines1 ps ds st2 where
    tb: "take_bet lines st = Some (Inr (bet, st1, lines1))" and se: "settle ps ds bet st1 = (oc, st2)"
    and st': "st' = st2\<lparr>pcoins := player_coins st2\<rparr>" by blast
  have st1: "\<not> was_push st1 \<and> 1 \<le> bet \<and> 0 \<le> player_coins st1 \<and>
      (0 \<le> player_coins st \<longrightarrow> 0 \<le> player_coins st1) \<and> last_bet st1 = Some (2 * bet) \<or>
    \<not> was_push st1 \<and> 1 \<le> bet \<and> player_coins st1 = player_coins st \<and>
      (\<exists>lb. last_bet st1 = Some lb \<and> 2 \<le> lb \<and> even lb)"
  proof (cases "was_push st")
    case False
    from take_bet_fresh [OF tb False] show ?thesis by auto
  next
    case True
    from take_bet_again [OF tb True] obtain lb where "last_bet st = Some lb" "bet = lb div 2"
      "st1 = st\<lparr>was_push := False\<rparr>" by blast
    with assms(1) True show ?thesis by (auto simp: bj_inv_def)
  qed
  from settle_cases [OF se] st1 show ?thesis by (auto simp: bj_inv_def st')
qed

lemma bj_iteration_Inr:
  assumes "bj_iteration target draws lines st = Some (Inr (ph, draws', lines'))"
  shows "player_coins st \<le> 0 \<and> bankrupt lines st = Some (ph, lines') \<or>
    0 < player_coins st \<and> (\<exists>oc st'. ph = Playing st' \<and>
      bj_round target draws lines st = Some (Inr (oc, st', draws', lines')))"
proof (cases "player_coins st \<le> 0")
  case True
  then show ?thesis using assms by (auto simp: bj_iteration_def)
next
  case False
  then obtain z where z: "bj_round target draws lines st = Some z"
    and m: "map_sum id (\<lambda>(oc, st, y). (Playing st, y)) z = Inr (ph, draws', lines')"
    using assms by (auto simp: bj_iteration_def)
  from m obtain oc st' where "z = Inr (oc, st', draws', lines')" and "ph = Playing st'"
    by (cases z) auto
  with False z show ?thesis by auto
qed

lemma bankrupt_Playing_state:
  assumes "bankrupt lines st = Some (Playing st', rest)"
  shows "st' = game_init (st\<lparr>gambledfunds := gambledfunds st + 1, pcoins := 50\<rparr>)"
  using assms by (auto simp: bankrupt_def Let_def split: list.splits if_splits)

lemma bankrupt_Playing:
  assumes "bankrupt lines st = Some (Playing st', rest)"
  shows "gambledfunds st < 1 \<and> st' = game_init (st\<lparr>gambledfunds := gambledfunds st + 1, pcoins := 50\<rparr>)"
  using assms bankrupt_Playing_state [OF assms] by (auto simp: bankrupt_def Let_def split: list.splits if_splits)

lemma bj_reachable_inv:
  assumes "bj_reachable p g ph"
  shows "case ph of Playing st \<Rightarrow> bj_inv st \<and> (0 \<le> p \<longrightarrow> 0 \<le> player_coins st) | Over st \<Rightarrow> True"
  using assms
proof (induction rule: bj_reachable.induct)
  case start
  then show ?case by (simp add: bj_inv_def game_init_def)
next
  case (step st target draws lines ph draws' lines')
  from bj_iteration_Inr [OF step.hyps(4)] show ?case
  proof
    assume "player_coins st \<le> 0 \<and> bankrupt lines st = Some (ph, lines')"
    then show ?thesis by (cases ph) (auto dest: bankrupt_Playing_state simp: bj_inv_def game_init_def)
  next
    assume "0 < player_coins st \<and> (\<exists>oc st'. ph = Playing st' \<and>
      bj_round target draws lines st = Some (Inr (oc, st', draws', lines')))"
    with step.IH show ?thesis by (auto dest: bj_round_inv)
  qed
qed

lemma hard_total_length: "int (length hand) \<le> hard_total hand"
proof (induction hand rule: rev_induct)
  case Nil
  then show ?case by (simp add: hard_total_def count_cards_eq)
next
  case (snoc c hand)
  then show ?case using hard_total_snoc [of hand c] by simp
qed

lemma player_turn_bust:
  assumes "\<forall>c \<in> set cmds. map py_lower (py_strip c) \<noteq> ''s''"
    and "nat (22 - hard_total hand) \<le> length cmds" and "nat (22 - hard_total hand) \<le> length draws"
    and "calc_score hand \<le> 21"
  shows "\<exists>h cs ds. player_turn cmds hand draws = Some (h, cs, ds) \<and> 21 < calc_score h"
  using assms
proof (induction cmds hand draws rule: player_turn.induct)
  case (1 hand draws)
  then have "22 \<le> hard_total hand" by simp
  with "1.prems"(4) calc_score_ge_hard [of hand] show ?case by simp
next
  case (2 cmd cmds hand draws)
  show ?case
  proof (cases draws)
    case Nil
    with "2.prems"(3,4) calc_score_ge_hard [of hand] show ?thesis by simp
  next
    case (Cons c draws')
    show ?thesis
    proof (cases "21 < calc_score (hand @ [c])")
      case True
      with "2.prems"(1) Cons show ?thesis by simp
    next
      case False
      have "nat (22 - hard_total (hand @ [c])) \<le> length cmds"
        and "nat (22 - hard_total (hand @ [c])) \<le> length draws'"
        using "2.prems"(2,3) Cons hard_total_snoc [of hand c] by simp_all
      with "2.IH" [OF _ Cons] "2.prems"(1) False Cons show ?thesis by auto
    qed
  qed
qed

subsection \<open>Properties of the blackjack game\<close>



text \<open>C21. The greedy ace loop of \<open>calc_score\<close> differs from the blackjack value
  exactly when the hand has an ace, at most 10 other points, and at least 12 points
  with every ace counted 1: the first ace takes 11 and a later card pushes the score
  over 21, although counting that ace 1 would not bust. \<open>[K, A, A]\<close> scores 22 instead
  of 12.\<close>

theorem calc_score_greedy_bust:
  "(calc_score h \<noteq> bj_value h \<longleftrightarrow>
     (let (s, a) = count_cards h in 0 < a \<and> s \<le> 10 \<and> 12 \<le> s + int a)) \<and>
   calc_score [(King, Heart), (Ace, Spade), (Ace, Club)] = 22 \<and>
   bj_value [(King, Heart), (Ace, Spade), (Ace, Club)] = 12"
proof -
  have "calc_score h \<noteq> bj_value h \<longleftrightarrow>
      (let (s, a) = count_cards h in 0 < a \<and> s \<le> 10 \<and> 12 \<le> s + int a)"
    by (auto simp: calc_score_eq bj_value_eq split: prod.split)
  moreover have "calc_score [(King, Heart), (Ace, Spade), (Ace, Club)] = 22" by code_simp
  moreover have "bj_value [(King, Heart), (Ace, Spade), (Ace, Club)] = 12" by code_simp
  ultimately show ?thesis by blast
qed

text \<open>C22. The coins shown for a bet add up to the bet, with fewer than five one-coin
  pieces (as many five-coins as fit).\<close>

theorem coin_breakdown_roundtrip:
  assumes "0 \<le> bet"
  shows "sum_list (map coin_value (coin_breakdown bet)) = bet \<and> count_list (coin_breakdown bet) Coin1 < 5"
proof -
  have "0 \<le> bet div 5" using assms by simp
  then have "sum_list (map coin_value (coin_breakdown bet)) = 5 * (bet div 5) + bet mod 5"
    by (simp add: coin_breakdown_eq coin_value_def coins_table_def sum_list_replicate)
  also have "\<dots> = bet" by simp
  moreover have "nat (bet mod 5) < 5" by (simp add: nat_less_iff)
  ultimately show ?thesis by (simp add: coin_breakdown_eq count_list_append count_list_replicate)
qed

theorem coin_breakdown_roundtrip_witness:
  "0 \<le> (17::int) \<and> coin_breakdown 17 = [Coin5, Coin5, Coin5, Coin1, Coin1] \<and>
   sum_list (map coin_value (coin_breakdown 17)) = 17"
proof -
  have "coin_breakdown 17 = [Coin5, Coin5, Coin5, Coin1, Coin1]" by code_simp
  then show ?thesis using coin_breakdown_roundtrip [of 17] by simp
qed

text \<open>C23. \<open>place_bet\<close> returns the first line that is an integer in
  \<open>1..player_coins\<close>, after skipping every earlier line, and returns the coins less the
  bet and the coins of the bet.\<close>

theorem place_bet_first_valid:
  "place_bet c lines = Some (bet, c', cl, rest) \<longleftrightarrow>
   (\<exists>pre line. lines = pre @ line # rest \<and> \<not> list_ex (valid_bet c) pre \<and> valid_bet c line \<and>
      py_int_str line = Inr bet \<and> c' = c - bet \<and> cl = coin_breakdown bet)"
proof (induction lines)
  case Nil
  then show ?case by simp
next
  case (Cons l ls)
  show ?case
  proof (cases "valid_bet c l")
    case True
    then obtain b where "py_int_str l = Inr b" "1 \<le> b" "b \<le> c"
      by (auto simp: valid_bet_def split: sum.splits)
    with True show ?thesis by (simp only: first_split_Cons if_True) auto
  next
    case False
    then have "place_bet c (l # ls) = place_bet c ls"
      by (auto simp: valid_bet_def split: sum.splits)
    with False Cons.IH show ?thesis by (simp only: first_split_Cons if_False)
  qed
qed

text \<open>C24. The dealer's loop \<open>while calc_score(dealer_hand) < dealer_target\<close> ends:
  from a two-card hand and a target of at most 19 it stops within 17 draws, at a score
  of at least the target.\<close>

theorem dealer_turn_terminates:
  assumes "target \<le> 19" and "length hand = 2" and "17 \<le> length draws"
  shows "\<exists>h rest. dealer_turn target hand draws = Some (h, rest) \<and> target \<le> calc_score h \<and>
    length h \<le> length hand + length draws"
proof -
  have "nat (target - hard_total hand) \<le> length draws"
    using assms hard_total_length [of hand] by simp
  from dealer_turn_Some [OF this] show ?thesis by auto
qed

theorem dealer_turn_terminates_witness:
  "(17::int) \<le> 19 \<and> length [(Two, Club), (Three, Heart)] = 2 \<and>
   17 \<le> length (replicate 17 (Two, Spade)) \<and>
   dealer_turn 17 [(Two, Club), (Three, Heart)] (replicate 17 (Two, Spade)) =
     Some ([(Two, Club), (Three, Heart)] @ replicate 6 (Two, Spade), replicate 11 (Two, Spade))"
proof -
  have "dealer_turn 17 [(Two, Club), (Three, Heart)] (replicate 17 (Two, Spade)) =
     Some ([(Two, Club), (Three, Heart)] @ replicate 6 (Two, Spade), replicate 11 (Two, Spade))"
    by code_simp
  moreover have "length [(Two, Club), (Three, Heart)] = 2" by simp
  ultimately show ?thesis
    using dealer_turn_terminates [of 17 "[(Two, Club), (Three, Heart)]" "replicate 17 (Two, Spade)"]
    by simp
qed

text \<open>C25. A player who never types \<open>s\<close> busts: from a two-card hand that has not
  bust, 20 hits are enough, and the turn ends with a score above 21.\<close>

theorem player_turn_busts:
  assumes "\<forall>c \<in> set cmds. map py_lower (py_strip c) \<noteq> ''s''" and "length hand = 2"
    and "calc_score hand \<le> 21" and "20 \<le> length cmds" and "20 \<le> length draws"
  shows "\<exists>h cs ds. player_turn cmds hand draws = Some (h, cs, ds) \<and> 21 < calc_score h"
proof -
  have "nat (22 - hard_total hand) \<le> 20" using assms(2) hard_total_length [of hand] by simp
  with assms show ?thesis by (intro player_turn_bust) simp_all
qed

theorem player_turn_busts_witness:
  "\<exists>h cs ds. player_turn (replicate 20 []) [(Two, Club), (Three, Heart)] (replicate 20 (King, Spade)) =
     Some (h, cs, ds) \<and> 21 < calc_score h"
proof -
  have "\<forall>c \<in> set (replicate 20 ([] :: string)). map py_lower (py_strip c) \<noteq> ''s''"
    by (simp add: py_strip_def)
  moreover have "calc_score [(Two, Club), (Three, Heart)] \<le> 21" by code_simp
  ultimately show ?thesis
    using player_turn_busts [of "replicate 20 []" "[(Two, Club), (Three, Heart)]" "replicate 20 (King, Spade)"]
    by simp
qed

text \<open>C26. In every state of a session, the round never raises: after a push
  \<open>last_bet\<close> always holds the doubled bet, so \<open>last_bet // 2\<close> is never applied to
  \<open>None\<close>.\<close>

theorem bj_no_type_error:
  assumes "bj_reachable p g (Playing st)"
  shows "bj_round target draws lines st \<noteq> Some (Inl e)"
proof
  assume "bj_round target draws lines st = Some (Inl e)"
  then have "was_push st \<and> last_bet st = None" by (intro take_bet_Inl bj_round_Inl)
  with bj_reachable_inv [OF assms] show False by (simp add: bj_inv_def)
qed

theorem bj_no_type_error_witness:
  "bj_reachable 20 0 (Playing (game_init \<lparr>player_coins = 20, last_bet = None, was_push = False,
      current_bet_coins = [], pcoins = 20, gambledfunds = 0\<rparr>)) \<and>
   bj_round 17 [(Ten, Heart), (Nine, Club), (Seven, Spade), (Eight, Club)] [''5'', ''s'', [] ]
     (game_init \<lparr>player_coins = 20, last_bet = None, was_push = False,
      current_bet_coins = [], pcoins = 20, gambledfunds = 0\<rparr>) \<noteq> Some (Inl TypeError)"
  using bj_no_type_error [OF bj_reachable.start] bj_reachable.start by blast

text \<open>C27. In every state of a session that starts with a non-negative number of coins,
  the coins stay non-negative, \<open>scorekeeper.pcoins\<close> holds the game's coins, and after
  a push the bet to repeat is a positive amount.\<close>

theorem bj_state_invariant:
  assumes "bj_reachable p g (Playing st)" and "0 \<le> p"
  shows "0 \<le> player_coins st \<and> pcoins st = player_coins st \<and>
    (was_push st \<longrightarrow> (\<exists>b. 1 \<le> b \<and> last_bet st = Some (2 * b)))"
proof -
  from bj_reachable_inv [OF assms(1)] assms(2) have "bj_inv st" and "0 \<le> player_coins st" by simp_all
  then show ?thesis by (auto simp: bj_inv_def split: option.splits elim!: evenE)
qed

lemma reachable_after_push:
  "bj_reachable 20 0 (Playing \<lparr>player_coins = 20, last_bet = Some 10, was_push = True,
     current_bet_coins = [Coin5], pcoins = 20, gambledfunds = 0\<rparr>)"
proof -
  have "bj_iteration 17 [(Ten, Heart), (Nine, Club), (Seven, Spade), (Eight, Club)] [''5'', ''s'', []]
      (game_init \<lparr>player_coins = 20, last_bet = None, was_push = False,
        current_bet_coins = [], pcoins = 20, gambledfunds = 0\<rparr>) =
    Some (Inr (Playing \<lparr>player_coins = 20, last_bet = Some 10, was_push = True,
      current_bet_coins = [Coin5], pcoins = 20, gambledfunds = 0\<rparr>, [], []))"
    by code_simp
  then show ?thesis by (rule bj_reachable.step [OF bj_reachable.start, rotated 2]) simp_all
qed

theorem bj_state_invariant_witness:
  "0 \<le> player_coins \<lparr>player_coins = 20, last_bet = Some 10, was_push = True,
     current_bet_coins = [Coin5], pcoins = 20, gambledfunds = 0\<rparr> \<and>
   (\<exists>b. 1 \<le> b \<and> last_bet \<lparr>player_coins = 20, last_bet = Some 10, was_push = True,
     current_bet_coins = [Coin5], pcoins = 20, gambledfunds = 0\<rparr> = Some (2 * b))"
  using bj_state_invariant [OF reachable_after_push] by simp

text \<open>C28. A round played right after a push costs nothing: the push returned the bet,
  and the repeated bet is not taken again, so a loss leaves the coins unchanged and a
  win or another push adds coins.\<close>

theorem push_round_free:
  assumes "bj_reachable p g (Playing st)" and "was_push st"
    and "bj_round target draws lines st = Some (Inr (oc, st', draws', lines'))"
  shows "player_coins st \<le> player_coins st' \<and>
    (oc = DealerWins \<or> oc = PlayerBust \<longrightarrow> player_coins st' = player_coins st)"
proof -
  from bj_round_Inr [OF assms(3)] obtain bet st1 lines1 ps ds st2 where
    tb: "take_bet lines st = Some (Inr (bet, st1, lines1))" and se: "settle ps ds bet st1 = (oc, st2)"
    and st': "st' = st2\<lparr>pcoins := player_coins st2\<rparr>" by blast
  from take_bet_again [OF tb assms(2)] obtain lb where lb: "last_bet st = Some lb" "bet = lb div 2"
    and st1: "st1 = st\<lparr>was_push := False\<rparr>" by blast
  from bj_reachable_inv [OF assms(1)] assms(2) lb have "1 \<le> bet" by (auto simp: bj_inv_def)
  with settle_cases [OF se] st1 st' show ?thesis by auto
qed

theorem push_round_free_witness:
  "\<exists>st'. bj_round 17 [(Ten, Heart), (Ten, Club), (Six, Spade), (Seven, Club)] [''s'', []]
      \<lparr>player_coins = 20, last_bet = Some 10, was_push = True,
       current_bet_coins = [Coin5], pcoins = 20, gambledfunds = 0\<rparr> = Some (Inr (DealerWins, st', [], [])) \<and>
    player_coins st' = 20"
proof -
  have r: "bj_round 17 [(Ten, Heart), (Ten, Club), (Six, Spade), (Seven, Club)] [''s'', []]
      \<lparr>player_coins = 20, last_bet = Some 10, was_push = True,
       current_bet_coins = [Coin5], pcoins = 20, gambledfunds = 0\<rparr> =
    Some (Inr (DealerWins, \<lparr>player_coins = 20, last_bet = None, was_push = False,
       current_bet_coins = [Coin5], pcoins = 20, gambledfunds = 0\<rparr>, [], []))"
    by code_simp
  show ?thesis using push_round_free [OF reachable_after_push _ r] r by auto
qed

text \<open>C29. A round that starts without a pending push takes a bet of 1 up to the coins
  held, and changes the coins by the bet: \<open>+bet\<close> for a win, 0 for a push, \<open>-bet\<close> for a
  loss or a bust.\<close>

theorem paid_round_gain:
  assumes "\<not> was_push st" and "bj_round target draws lines st = Some (Inr (oc, st', draws', lines'))"
  shows "\<exists>bet. 1 \<le> bet \<and> bet \<le> player_coins st \<and>
    player_coins st' = player_coins st +
      (case oc of PlayerWins \<Rightarrow> bet | BjPush \<Rightarrow> 0 | DealerWins \<Rightarrow> - bet | PlayerBust \<Rightarrow> - bet)"
proof -
  from bj_round_Inr [OF assms(2)] obtain bet st1 lines1 ps ds st2 where
    tb: "take_bet lines st = Some (Inr (bet, st1, lines1))" and se: "settle ps ds bet st1 = (oc, st2)"
    and st': "st' = st2\<lparr>pcoins := player_coins st2\<rparr>" by blast
  from take_bet_fresh [OF tb assms(1)] settle_cases [OF se] st' show ?thesis
    by (intro exI [of _ bet]) auto
qed

theorem paid_round_gain_witness:
  "bj_round 17 [(Ten, Heart), (Nine, Club), (Seven, Spade), (Eight, Club)] [''5'', ''s'', []]
      \<lparr>player_coins = 20, last_bet = None, was_push = False,
        current_bet_coins = [], pcoins = 20, gambledfunds = 0\<rparr> =
    Some (Inr (BjPush, \<lparr>player_coins = 20, last_bet = Some 10, was_push = True,
      current_bet_coins = [Coin5], pcoins = 20, gambledfunds = 0\<rparr>, [], [])) \<and>
   (\<exists>bet. 1 \<le> bet \<and> bet \<le> (20::int))"
proof -
  have r: "bj_round 17 [(Ten, Heart), (Nine, Club), (Seven, Spade), (Eight, Club)] [''5'', ''s'', []]
      \<lparr>player_coins = 20, last_bet = None, was_push = False,
        current_bet_coins = [], pcoins = 20, gambledfunds = 0\<rparr> =
    Some (Inr (BjPush, \<lparr>player_coins = 20, last_bet = Some 10, was_push = True,
      current_bet_coins = [Coin5], pcoins = 20, gambledfunds = 0\<rparr>, [], []))"
    by code_simp
  show ?thesis using paid_round_gain [OF _ r] r by auto
qed

lemma bj_round_gambledfunds:
  assumes "bj_round target draws lines st = Some (Inr (oc, st', draws', lines'))"
  shows "gambledfunds st' = gambledfunds st"
proof -
  from bj_round_Inr [OF assms] obtain bet st1 lines1 ps ds st2 where
    tb: "take_bet lines st = Some (Inr (bet, st1, lines1))" and se: "settle ps ds bet st1 = (oc, st2)"
    and st': "st' = st2\<lparr>pcoins := player_coins st2\<rparr>" by blast
  have "gambledfunds st1 = gambledfunds st"
  proof (cases "was_push st")
    case True
    from take_bet_again [OF tb True] show ?thesis by auto
  next
    case False
    from take_bet_fresh [OF tb False] show ?thesis by simp
  qed
  with settle_cases [OF se] st' show ?thesis by auto
qed

lemma bj_restarts_reachable: "bj_reachable p g ph \<longleftrightarrow> (\<exists>n. bj_restarts p g n ph)"
proof
  assume "bj_reachable p g ph"
  then show "\<exists>n. bj_restarts p g n ph"
    by induction (blast intro: bj_restarts.start bj_restarts.step)+
next
  assume "\<exists>n. bj_restarts p g n ph"
  then obtain n where "bj_restarts p g n ph" ..
  then show "bj_reachable p g ph"
    by induction (blast intro: bj_reachable.start bj_reachable.step)+
qed

text \<open>C31. The college funds restart the game at most once in a session that starts
  with \<open>scorekeeper.gambledfunds\<close> non-negative (lines 5--6 set it to 0), and not at all
  when it starts above 0: along any run of the game loop, whatever the draws, the
  input and the dealer targets, the number of restarts is at most \<open>1\<close>, and \<open>0\<close>
  unless the counter started at \<open>0\<close>.\<close>

theorem college_funds_once:
  assumes "bj_restarts p g n ph" and "0 \<le> g"
  shows "n \<le> (if g = 0 then 1 else 0)"
proof -
  have "n \<le> (if g = 0 then 1 else 0) \<and>
      (case ph of Playing st \<Rightarrow> gambledfunds st = g + int n | Over st \<Rightarrow> True)"
    using assms(1)
  proof (induction rule: bj_restarts.induct)
    case start
    then show ?case by (simp add: game_init_def)
  next
    case (step n st target draws lines ph draws' lines')
    from bj_iteration_Inr [OF step.hyps(4)] show ?case
    proof
      assume "player_coins st \<le> 0 \<and> bankrupt lines st = Some (ph, lines')"
      with step.IH assms(2) show ?thesis
        by (cases ph) (auto dest: bankrupt_Playing simp: game_init_def)
    next
      assume "0 < player_coins st \<and> (\<exists>oc st'. ph = Playing st' \<and>
        bj_round target draws lines st = Some (Inr (oc, st', draws', lines')))"
      with step.IH show ?thesis by (auto dest: bj_round_gambledfunds)
    qed
  qed
  then show ?thesis ..
qed

lemma restart_once_reachable:
  "bj_restarts 0 0 1 (Playing (game_init \<lparr>player_coins = 0, last_bet = None, was_push = False,
     current_bet_coins = [], pcoins = 50, gambledfunds = 1\<rparr>))"
proof -
  have "bj_iteration 17 [] [''yes'']
      (game_init \<lparr>player_coins = 0, last_bet = None, was_push = False,
        current_bet_coins = [], pcoins = 0, gambledfunds = 0\<rparr>) =
    Some (Inr (Playing (game_init \<lparr>player_coins = 0, last_bet = None, was_push = False,
      current_bet_coins = [], pcoins = 50, gambledfunds = 1\<rparr>), [], []))"
    by code_simp
  from bj_restarts.step [OF bj_restarts.start _ _ this] show ?thesis by (simp add: game_init_def)
qed

theorem college_funds_once_witness:
  "0 \<le> (0::int) \<and> (1::nat) \<le> (if (0::int) = 0 then 1 else 0)"
  using college_funds_once [OF restart_once_reachable] by simp

end
