(* ===== verification/Render.thy ===== *)
theory Render
  imports Resolver Blackjack
begin

text \<open>
  The terminal output of both games: the card faces of src/poker.py (lines 5--71) and
  of BBlackjack.py (lines 9--28, 66--94), and the two \<open>show_table\<close> functions (poker
  lines 206--218, blackjack lines 119--143). A Python \<open>str\<close> is a sequence of code
  points, here \<open>ustr\<close>, a list of natural numbers, so that the suit symbols
  (U+2660--U+2667) and the escape character (27) are represented as they are. What a
  function prints is a list of output events: \<open>print(x)\<close> is \<open>Print\<close> of the text and
  its end, \<open>os.system(...)\<close> is \<open>OsClear\<close>. How a terminal shows a line is \<open>visible\<close>:
  the text with the ANSI escape sequences (ESC \<open>[\<close> ... final byte) removed.
\<close>

subsection \<open>Python strings as code points\<close>

type_synonym ustr = "nat list"

text \<open>A string literal of ASCII characters.\<close>

definition u :: "string \<Rightarrow> ustr" where
  "u s = map of_char s"

text \<open>\<open>str.center(width)\<close> with spaces: CPython puts \<open>marg // 2 + (marg & width & 1)\<close>
  spaces on the left, the rest on the right, and returns the string itself when it is
  already as wide.\<close>

definition py_center :: "nat \<Rightarrow> ustr \<Rightarrow> ustr" where
  "py_center width s =
     (if width \<le> length s then s
      else let marg = width - length s;
               left = marg div 2 + (if odd marg \<and> odd width then 1 else 0)
           in replicate left 32 @ s @ replicate (marg - left) 32)"

text \<open>\<open>str(n)\<close> (and \<open>f"{n}"\<close>) of an \<open>int\<close>: its decimal digits, with \<open>-\<close> when negative.\<close>

fun decimal_digits :: "nat \<Rightarrow> ustr" where
  "decimal_digits n = (if n < 10 then [48 + n] else decimal_digits (n div 10) @ [48 + n mod 10])"

definition py_str_int :: "int \<Rightarrow> ustr" where
  "py_str_int i = (if i < 0 then 45 # decimal_digits (nat (- i)) else decimal_digits (nat i))"

declare decimal_digits.simps [simp del]

datatype out = Print ustr | OsClear

text \<open>\<open>print(x)\<close>, with the default \<open>end="\n"\<close>.\<close>

definition println :: "ustr \<Rightarrow> out" where
  "println s = Print (s @ [10])"

subsection \<open>Poker: colours and card faces\<close>

text \<open>Lines 6--14 (\<open>MAGENTA\<close> is never used).\<close>

definition RED :: ustr where "RED = 27 # u ''[31m''"
definition BLACK :: ustr where "BLACK = 27 # u ''[30m''"
definition YELLOW :: ustr where "YELLOW = 27 # u ''[33m''"
definition GREEN :: ustr where "GREEN = 27 # u ''[38;2;0;255;0m''"
definition RESET :: ustr where "RESET = 27 # u ''[0m''"
definition BG_WHITE :: ustr where "BG_WHITE = 27 # u ''[48;2;255;255;255m''"
definition BG_GREY :: ustr where "BG_GREY = 27 # u ''[48;2;235;235;235m''"
definition BOLD :: ustr where "BOLD = 27 # u ''[1m''"

text \<open>Lines 17--21: the suit symbols.\<close>

definition HEART :: ustr where "HEART = [0x2665]"
definition DIAMOND :: ustr where "DIAMOND = [0x2666]"
definition CLUB :: ustr where "CLUB = [0x2663]"
definition SPADE :: ustr where "SPADE = [0x2660]"
definition SPADE2 :: ustr where "SPADE2 = [0x2664]"

text \<open>The strings a card tuple holds: \<open>c[0]\<close> and \<open>c[1]\<close>.\<close>

primrec suit_ustr :: "suit \<Rightarrow> ustr" where
  "suit_ustr Heart = HEART" | "suit_ustr Diamond = DIAMOND"
| "suit_ustr Spade = SPADE" | "suit_ustr Club = CLUB"

definition face_ustr :: "face \<Rightarrow> ustr" where
  "face_ustr f = u (face_str f)"

text \<open>Lines 29--30.\<close>

definition suit_color :: "ustr \<Rightarrow> ustr" where
  "suit_color suit = (if suit \<in> {HEART, DIAMOND} then RED else BLACK)"

text \<open>Lines 32--39.\<close>

definition format_card :: "ustr \<Rightarrow> ustr \<Rightarrow> ustr \<times> ustr \<times> ustr" where
  "format_card face suit =
     (let face_display = (if face \<noteq> u ''10'' then py_center 2 face else face);
          col = suit_color suit
      in (BOLD @ col @ BG_WHITE @ suit @ u ''  '' @ RESET,
          BOLD @ col @ BG_WHITE @ u '' '' @ face_display @ RESET,
          BOLD @ col @ BG_WHITE @ u ''  '' @ suit @ RESET))"

text \<open>Lines 42--47.\<close>

definition format_hidden_card :: "ustr \<times> ustr \<times> ustr" where
  "format_hidden_card =
     (BG_WHITE @ BLACK @ SPADE @ BOLD @ u '' '' @ RED @ HEART @ RESET,
      BOLD @ BLACK @ BG_WHITE @ u '' '' @ SPADE2 @ u '' '' @ RESET,
      BOLD @ BG_WHITE @ RED @ DIAMOND @ u '' '' @ BLACK @ CLUB @ RESET)"

text \<open>Lines 50--55; the knight is U+265E.\<close>

definition format_joker :: "ustr \<times> ustr \<times> ustr" where
  "format_joker =
     (BOLD @ BLACK @ BG_GREY @ u ''J  '' @ RESET,
      BOLD @ BLACK @ BG_GREY @ u '' '' @ [0x265E] @ u '' '' @ RESET,
      BOLD @ BLACK @ BG_GREY @ u ''  J'' @ RESET)"

text \<open>Lines 61--67: the three rows of one card. A joker is the card whose \<open>c[0]\<close>
  is \<open>"JOKER"\<close>; no face string is, so it is the constructor \<open>Joker\<close>
  (\<open>card_head_JOKER\<close> below).\<close>

definition card_face :: "bool \<Rightarrow> card \<Rightarrow> ustr \<times> ustr \<times> ustr" where
  "card_face hide c =
     (if hide then format_hidden_card
      else case c of Joker \<Rightarrow> format_joker | Card f s \<Rightarrow> format_card (face_ustr f) (suit_ustr s))"

text \<open>Lines 58--71: \<open>render(cards, hide)\<close>; each iteration appends the rows of the card
  and a space to \<open>lines[0]\<close>, \<open>lines[1]\<close>, \<open>lines[2]\<close>.\<close>

definition render :: "card list \<Rightarrow> bool \<Rightarrow> ustr list" where
  "render cards hide =
     fold (\<lambda>c lines. let (a, b, c2) = card_face hide c
                      in lines[0 := lines ! 0 @ a @ u '' '', 1 := lines ! 1 @ b @ u '' '',
                               2 := lines ! 2 @ c2 @ u '' ''])
       cards [[], [], []]"

text \<open>Lines 73--74.\<close>

definition clear :: "out list" where
  "clear = [OsClear]"

text \<open>Lines 206--218: \<open>show_table(player_hand, dealer_hand, hide_dealer)\<close>, with the
  module's tally giving the two percentages.\<close>

definition show_table :: "tally \<Rightarrow> card list \<Rightarrow> card list \<Rightarrow> bool \<Rightarrow> out list" where
  "show_table t player_hand dealer_hand hide_dealer =
     clear @
     [println (BOLD @ [0x2660] @ u '' 5-CARD DRAW '' @ [0x2663] @ RESET @ [10]),
      println (BOLD @ RED @ u ''Dealer:'' @ RESET)] @
     map println (render dealer_hand hide_dealer) @
     [println (u ''Dealer Win%: '' @ (if 50 \<le> get_dealer_percent t then GREEN else RED) @
               py_str_int (get_dealer_percent t) @ RESET @ [10]),
      println (BOLD @ BLACK @ u ''Your Hand:'' @ RESET)] @
     map println (render player_hand False) @
     [println (u ''Player Win%: '' @ (if 50 \<le> get_player_percent t then GREEN else RED) @
               py_str_int (get_player_percent t) @ RESET @ [10])]"

subsection \<open>Blackjack: colours, coins and card faces\<close>

text \<open>Lines 10--18 of BBlackjack.py define \<open>RED\<close>, \<open>BLACK\<close>, \<open>YELLOW\<close>, \<open>GREEN\<close>,
  \<open>RESET\<close>, \<open>BG_WHITE\<close> and \<open>BOLD\<close> as the same strings as poker.py, and lines
  21--28 the same suit symbols (\<open>spade2\<close> is \<open>SPADE2\<close>); the two colours of its own:\<close>

definition gray :: ustr where "gray = 27 # u ''[2m''"
definition ORANGE :: ustr where "ORANGE = 27 # u ''[38;2;255;165;0m''"

text \<open>Line 35: the keys of \<open>coins\<close>, a stack of five and a single coin.\<close>

primrec coin_str :: "coin \<Rightarrow> ustr" where
  "coin_str Coin5 = YELLOW @ BOLD @ [0x26C1, 32] @ RESET"
| "coin_str Coin1 = YELLOW @ BOLD @ [0x26C0, 32] @ RESET"

text \<open>Lines 37--45: the cursor and screen controls and \<open>typewriter\<close> (the delays are
  not modelled), all printed with \<open>end=""\<close> except the final newline.\<close>

definition bj_hide :: "out list" where "bj_hide = [Print (27 # u ''[?25l'')]"
definition bj_show :: "out list" where "bj_show = [Print (27 # u ''[?25h'')]"
definition bj_clear :: "out list" where "bj_clear = [Print (27 # u ''[H'' @ 27 # u ''[J'')]"

definition typewriter :: "ustr \<Rightarrow> out list" where
  "typewriter text = map (\<lambda>char. Print [char]) text @ [println []]"

text \<open>Lines 66--82, the same code as poker lines 29--47.\<close>

definition bj_suit_color :: "ustr \<Rightarrow> ustr" where
  "bj_suit_color suit = (if suit \<in> {HEART, DIAMOND} then RED else BLACK)"

definition bj_format_card :: "ustr \<Rightarrow> ustr \<Rightarrow> ustr \<times> ustr \<times> ustr" where
  "bj_format_card face suit =
     (let face_display = (if face \<noteq> u ''10'' then py_center 2 face else face);
          col = bj_suit_color suit
      in (BOLD @ col @ BG_WHITE @ suit @ u ''  '' @ RESET,
          BOLD @ col @ BG_WHITE @ u '' '' @ face_display @ RESET,
          BOLD @ col @ BG_WHITE @ u ''  '' @ suit @ RESET))"

definition bj_format_hidden_card :: "ustr \<times> ustr \<times> ustr" where
  "bj_format_hidden_card =
     (BG_WHITE @ BLACK @ SPADE @ BOLD @ u '' '' @ RED @ HEART @ RESET,
      BOLD @ BLACK @ BG_WHITE @ u '' '' @ SPADE2 @ u '' '' @ RESET,
      BOLD @ BG_WHITE @ RED @ DIAMOND @ u '' '' @ BLACK @ CLUB @ RESET)"

text \<open>Lines 84--94: \<open>render_hand(hand, hide_all, hide_first)\<close> over
  \<open>enumerate(hand)\<close>; the card at index 0 is hidden when \<open>hide_first\<close>.\<close>

definition hand_face :: "bool \<Rightarrow> bool \<Rightarrow> nat \<Rightarrow> face \<Rightarrow> suit \<Rightarrow> ustr \<times> ustr \<times> ustr" where
  "hand_face hide_all hide_first idx face suit =
     (if hide_all \<or> (hide_first \<and> idx = 0) then bj_format_hidden_card
      else bj_format_card (face_ustr face) (suit_ustr suit))"

definition render_hand :: "bj_card list \<Rightarrow> bool \<Rightarrow> bool \<Rightarrow> ustr list" where
  "render_hand hand hide_all hide_first =
     fold (\<lambda>(idx, face, suit) lines.
             let (a, b, c) = hand_face hide_all hide_first idx face suit
             in lines[0 := lines ! 0 @ a @ u '' '', 1 := lines ! 1 @ b @ u '' '',
                      2 := lines ! 2 @ c @ u '' ''])
       (enumerate 0 hand) [[], [], []]"

text \<open>Lines 121--124: the title, in grey and red; \<open>BSL\<close> is the backslash.\<close>

definition BSL :: ustr where "BSL = [92]"

definition bj_banner :: "ustr list" where
  "bj_banner =
    [gray @ BOLD @ u ''  ___ _      _   ___ _  __'' @ RESET @ BOLD @ RED @ u ''  _  _   ___ _  __'' @ RESET,
     gray @ BOLD @ u '' | _ ) |    /_'' @ BSL @ u '' / __| |/ /'' @ RESET @ BOLD @ RED @ u '' | |/_'' @ BSL @
       u '' / __| |/ /'' @ RESET,
     gray @ BOLD @ u '' | _ '' @ BSL @ u '' |__ / _ '' @ BSL @ u '' (__| ' <'' @ RESET @ BOLD @ RED @
       u '' || / _ '' @ BSL @ u '' (__| ' < '' @ RESET,
     gray @ BOLD @ u '' |___/____/_/ '' @ BSL @ u ''_'' @ BSL @ u ''___|_|'' @ BSL @ u ''_'' @ RESET @ BOLD @
       RED @ BSL @ u ''__/_/ '' @ BSL @ u ''_'' @ BSL @ u ''___|_|'' @ BSL @ u ''_'' @ BSL @ RESET @ [10]]"

text \<open>Lines 119--143: \<open>show_table(hide_all, hide_dealer_first, bet_coins)\<close> over the
  hands of \<open>game()\<close>: what it prints, and the exception it raises, if any.
  \<open>bet_coins\<close> is \<open>None\<close> or the coin list; both are false when empty, so the list
  stands for both. With \<open>hide_dealer_first\<close> the dealer's score is that of
  \<open>dealer_hand[1]\<close> alone, which raises \<open>IndexError\<close> on a shorter hand, after the
  screen was cleared and the title printed (lines 120--124) and before anything else.\<close>

definition bj_show_table :: "bool \<Rightarrow> bool \<Rightarrow> coin list \<Rightarrow> bj_card list \<Rightarrow> bj_card list \<Rightarrow>
    out list \<times> py_error option" where
  "bj_show_table hide_all hide_dealer_first bet_coins player_hand dealer_hand =
     (let title = bj_clear @ map println bj_banner
      in case (if hide_all then Inr (println (u ''Dealer:''))
               else if hide_dealer_first
               then py_bind (py_index dealer_hand 1) (\<lambda>c.
                      Inr (println (u ''Dealer:'' @ BOLD @ ORANGE @ gray @ u '' '' @
                                    py_str_int (calc_score [c]) @ RESET)))
               else Inr (println (u ''Dealer:'' @ BOLD @ ORANGE @ u '' '' @
                                  py_str_int (calc_score dealer_hand) @ RESET))) of
           Inl e \<Rightarrow> (title, Some e)
         | Inr dealer_line \<Rightarrow>
             (title @ [dealer_line] @
              map println (render_hand dealer_hand hide_all hide_dealer_first) @
              [if \<not> hide_all then println ([10] @ u ''Your Hand:'' @ BOLD @ GREEN @ u '' '' @
                                         py_str_int (calc_score player_hand) @ RESET)
               else println ([10] @ u ''Your Hand:'')] @
              map println (render_hand player_hand hide_all False) @
              (if bet_coins \<noteq> [] \<and> \<not> hide_all then [println (concat (map coin_str bet_coins))] else []),
              None))"

subsection \<open>What the terminal shows\<close>

text \<open>Not code of the repository: how a terminal reads a printed string. An escape
  (27) starts a sequence; ESC \<open>[\<close> starts a control sequence that ends at its final
  byte (64--126), and everything else is shown. \<open>vis_mode\<close> is the state the
  scanner ends in. A shown code point is counted as one column.\<close>

datatype ansi_mode = Text | Esc | Csi

fun vis :: "ansi_mode \<Rightarrow> ustr \<Rightarrow> ustr" where
  "vis m [] = []"
| "vis Text (c # cs) = (if c = 27 then vis Esc cs else c # vis Text cs)"
| "vis Esc (c # cs) = (if c = 91 then vis Csi cs else vis Text cs)"
| "vis Csi (c # cs) = (if 64 \<le> c \<and> c \<le> 126 then vis Text cs else vis Csi cs)"

fun vis_mode :: "ansi_mode \<Rightarrow> ustr \<Rightarrow> ansi_mode" where
  "vis_mode m [] = m"
| "vis_mode Text (c # cs) = (if c = 27 then vis_mode Esc cs else vis_mode Text cs)"
| "vis_mode Esc (c # cs) = (if c = 91 then vis_mode Csi cs else vis_mode Text cs)"
| "vis_mode Csi (c # cs) = (if 64 \<le> c \<and> c \<le> 126 then vis_mode Text cs else vis_mode Csi cs)"

definition visible :: "ustr \<Rightarrow> ustr" where
  "visible s = vis Text s"

text \<open>The three rows of a card, each three columns wide and closing its escape sequences.\<close>

definition face_rows_ok :: "ustr \<times> ustr \<times> ustr \<Rightarrow> bool" where
  "face_rows_ok t \<longleftrightarrow>
     list_all (\<lambda>r. length (vis Text r) = 3 \<and> vis_mode Text r = Text) [fst t, fst (snd t), snd (snd t)]"

lemma vis_append: "vis m (xs @ ys) = vis m xs @ vis (vis_mode m xs) ys"
  by (induction m xs rule: vis.induct) auto

lemma vis_mode_append: "vis_mode m (xs @ ys) = vis_mode (vis_mode m xs) ys"
  by (induction m xs rule: vis.induct) auto

lemma vis_concat:
  "\<forall>x\<in>set xs. vis_mode Text x = Text \<Longrightarrow> vis Text (concat xs) = concat (map (vis Text) xs)"
  by (induction xs) (simp_all add: vis_append)

lemmas vis_simps = vis_append vis_mode_append

lemma ansi_invisible [simp]:
  "vis Text RED = [] \<and> vis_mode Text RED = Text" "vis Text BLACK = [] \<and> vis_mode Text BLACK = Text"
  "vis Text BOLD = [] \<and> vis_mode Text BOLD = Text" "vis Text RESET = [] \<and> vis_mode Text RESET = Text"
  "vis Text BG_WHITE = [] \<and> vis_mode Text BG_WHITE = Text"
  "vis Text BG_GREY = [] \<and> vis_mode Text BG_GREY = Text"
  by (simp_all add: RED_def BLACK_def BOLD_def RESET_def BG_WHITE_def BG_GREY_def u_def)

lemma plain_text [simp]: "27 \<notin> set s \<Longrightarrow> vis Text s = s \<and> vis_mode Text s = Text"
  by (induction s) auto

lemma suit_ustr_plain [simp]: "27 \<notin> set (suit_ustr s) \<and> length (suit_ustr s) = 1"
  by (cases s) (simp_all add: HEART_def DIAMOND_def SPADE_def CLUB_def)

lemma face_ustr_plain [simp]: "27 \<notin> set (face_ustr f) \<and> 0 < length (face_ustr f) \<and> length (face_ustr f) \<le> 2"
  by (cases f) (simp_all add: face_ustr_def u_def)

lemma py_center_plain [simp]:
  "27 \<notin> set (py_center w s) \<longleftrightarrow> 27 \<notin> set s" "length (py_center w s) = max w (length s)"
  by (auto simp: py_center_def Let_def)

lemma format_rows_ok:
  "face_rows_ok (format_card (face_ustr f) (suit_ustr s))" "face_rows_ok format_hidden_card"
  "face_rows_ok format_joker"
  using face_ustr_plain [of f]
  by (auto simp: face_rows_ok_def format_card_def format_hidden_card_def format_joker_def
    vis_simps u_def suit_color_def HEART_def DIAMOND_def SPADE_def SPADE2_def CLUB_def)

lemma row_width:
  assumes "\<And>x. length (vis Text (R x)) = 3 \<and> vis_mode Text (R x) = Text"
  shows "length (visible (concat (map (\<lambda>x. R x @ [32]) xs))) = 4 * length xs"
proof -
  have "vis Text (concat (map (\<lambda>x. R x @ [32]) xs)) = concat (map (\<lambda>x. vis Text (R x) @ [32]) xs)"
    using assms by (simp add: vis_concat vis_simps comp_def)
  then show ?thesis
    using assms by (simp add: visible_def length_concat comp_def sum_list_triv)
qed

lemma u_space [simp]: "u '' '' = [32]"
  by (simp add: u_def)

lemma fold_rows:
  "fold (\<lambda>x lines. let (a, b, c) = F x
                    in lines[0 := lines ! 0 @ a @ [32], 1 := lines ! 1 @ b @ [32], 2 := lines ! 2 @ c @ [32]])
     xs [p, q, r] =
   [p @ concat (map (\<lambda>x. fst (F x) @ [32]) xs), q @ concat (map (\<lambda>x. fst (snd (F x)) @ [32]) xs),
    r @ concat (map (\<lambda>x. snd (snd (F x)) @ [32]) xs)]"
  by (induction xs arbitrary: p q r) (simp_all add: split_def Let_def)

lemma render_rows:
  "render cards hide =
     [concat (map (\<lambda>c. fst (card_face hide c) @ [32]) cards),
      concat (map (\<lambda>c. fst (snd (card_face hide c)) @ [32]) cards),
      concat (map (\<lambda>c. snd (snd (card_face hide c)) @ [32]) cards)]"
  using fold_rows [of "card_face hide" cards "[]" "[]" "[]"] unfolding render_def u_space by simp

lemma render_hand_rows:
  "render_hand hand hide_all hide_first =
     [concat (map (\<lambda>(i, f, s). fst (hand_face hide_all hide_first i f s) @ [32]) (enumerate 0 hand)),
      concat (map (\<lambda>(i, f, s). fst (snd (hand_face hide_all hide_first i f s)) @ [32]) (enumerate 0 hand)),
      concat (map (\<lambda>(i, f, s). snd (snd (hand_face hide_all hide_first i f s)) @ [32]) (enumerate 0 hand))]"
proof -
  have "(\<lambda>(idx, face, suit) lines.
          let (a, b, c) = hand_face hide_all hide_first idx face suit
          in lines[0 := lines ! 0 @ a @ [32], 1 := lines ! 1 @ b @ [32], 2 := lines ! 2 @ c @ [32]]) =
        (\<lambda>x lines. let (a, b, c) = (case x of (idx, face, suit) \<Rightarrow> hand_face hide_all hide_first idx face suit)
          in lines[0 := lines ! 0 @ a @ [32], 1 := lines ! 1 @ b @ [32], 2 := lines ! 2 @ c @ [32]])"
    by (auto simp: fun_eq_iff split: prod.splits)
  with fold_rows [of "\<lambda>(idx, face, suit). hand_face hide_all hide_first idx face suit"
      "enumerate 0 hand" "[]" "[]" "[]"]
  show ?thesis unfolding render_hand_def u_space by (simp add: split_def)
qed


lemma bj_format_card_eq: "bj_format_card = format_card"
  by (simp add: fun_eq_iff bj_format_card_def format_card_def bj_suit_color_def suit_color_def)

lemma bj_format_hidden_card_eq: "bj_format_hidden_card = format_hidden_card"
  by (simp add: bj_format_hidden_card_def format_hidden_card_def)

lemma card_head_JOKER: "card_head c = ''JOKER'' \<longleftrightarrow> c = Joker"
proof (cases c)
  case (Card f s)
  then show ?thesis by (cases f) simp_all
qed simp

lemma card_face_ok: "face_rows_ok (card_face hide c)"
  by (simp add: card_face_def format_rows_ok split: card.split)

lemma hand_face_ok: "face_rows_ok (hand_face hide_all hide_first i f s)"
  by (simp add: hand_face_def bj_format_card_eq bj_format_hidden_card_eq format_rows_ok)

lemma rows_width:
  assumes "\<And>x. face_rows_ok (F x)"
  shows "map (\<lambda>l. length (visible l))
           [concat (map (\<lambda>x. fst (F x) @ [32]) xs), concat (map (\<lambda>x. fst (snd (F x)) @ [32]) xs),
            concat (map (\<lambda>x. snd (snd (F x)) @ [32]) xs)] = [4 * length xs, 4 * length xs, 4 * length xs]"
  using assms by (simp add: face_rows_ok_def row_width)

text \<open>The three rows of a rendered hand line up: each card takes three columns and a
  space, in every row, whatever is hidden.\<close>

theorem render_aligned:
  "map (\<lambda>l. length (visible l)) (render cards hide) = [4 * length cards, 4 * length cards, 4 * length cards]"
  unfolding render_rows by (rule rows_width) (rule card_face_ok)

theorem render_hand_aligned:
  "map (\<lambda>l. length (visible l)) (render_hand hand hide_all hide_first) =
     [4 * length hand, 4 * length hand, 4 * length hand]"
proof -
  have "\<And>x. face_rows_ok ((\<lambda>(i, f, s). hand_face hide_all hide_first i f s) x)"
    by (simp add: split_def hand_face_ok)
  from rows_width [OF this, where xs = "enumerate 0 hand"] show ?thesis
    by (simp add: render_hand_rows split_def)
qed

text \<open>\<open>show_table\<close> of blackjack raises \<open>IndexError\<close> exactly when it must show the
  dealer's second card and there is none, having printed only the cleared screen and the
  title.\<close>

lemma bj_show_table_error:
  "snd (bj_show_table hide_all hide_dealer_first bet_coins player_hand dealer_hand) = Some e \<longleftrightarrow>
     \<not> hide_all \<and> hide_dealer_first \<and> length dealer_hand < 2 \<and> e = IndexError \<and>
     fst (bj_show_table hide_all hide_dealer_first bet_coins player_hand dealer_hand) =
       bj_clear @ map println bj_banner"
  by (auto simp: bj_show_table_def py_bind_def py_index_def Let_def split: sum.splits)

text \<open>C32. While the player plays, the blackjack table does not show the dealer's hole
  card: \<open>show_table(hide_dealer_first=True)\<close> prints the same whatever the dealer's first
  card is (only \<open>dealer_hand[1]\<close> is scored and only index 0 is drawn face down).\<close>

theorem bj_show_table_hides_hole_card:
  "bj_show_table hide_all True bet_coins player_hand (d0 # d1 # ds) =
   bj_show_table hide_all True bet_coins player_hand (d0' # d1 # ds)"
  by (simp add: bj_show_table_def render_hand_rows hand_face_def py_index_def py_bind_def)

text \<open>C33. Before the reveal the poker table does not show the dealer's cards:
  \<open>show_table(player, dealer)\<close>, with \<open>hide_dealer=True\<close>, prints the same for any two
  dealer hands of the same length.\<close>

theorem show_table_hides_dealer:
  assumes "length dealer_hand = length dealer_hand'"
  shows "show_table t player_hand dealer_hand True = show_table t player_hand dealer_hand' True"
  using assms by (simp add: show_table_def render_rows card_face_def map_replicate_const)

theorem show_table_hides_dealer_witness:
  "length [Card Ace Spade, Joker] = length [Card Two Club, Card Two Heart] \<and>
   show_table tally_init [Card King Club] [Card Ace Spade, Joker] True =
   show_table tally_init [Card King Club] [Card Two Club, Card Two Heart] True"
  using show_table_hides_dealer [of "[Card Ace Spade, Joker]" "[Card Two Club, Card Two Heart]"] by simp

end
