(* ===== verification/Spec2Isabelle.thy ===== *)
theory Spec2Isabelle
  imports Round Blackjack Render
begin

text \<open>
  A verification library for the two games of the repository, kept beside the code:
  the five-card draw with two wild jokers of src/poker.py, and the blackjack of
  src/GAMBLING!! (1)/Modules/BBlackjack.py. The poker program deals two hands from a
  shuffled 54-card deck, lets the player and a heuristic dealer replace cards, scores
  both hands with \<open>evaluate\<close>, compares the scores with Python's \<open><\<close>, and keeps a
  running tally of wins with a push multiplier that doubles on every tie. The blackjack
  program takes a bet, lets the player hit, lets the dealer draw to a random target,
  settles, and repeats until the coins are gone. The model is a shallow embedding: every
  function is executable, so the spec's scenarios and the counterexamples are
  evaluated by the kernel (\<open>simp\<close>, \<open>code_simp\<close>).

  \<^bold>\<open>Theories and what they model.\<close>
  \<^item> \<open>Prelude\<close>: Python idioms shared by the components: \<open>py_error\<close> (the exceptions
    the code can raise) and \<open>py_bind\<close>; \<open>list.pop()\<close>, \<open>list.pop(i)\<close>, \<open>xs[i]\<close>;
    \<open>str.strip\<close>, \<open>str.lower\<close>, \<open>str.isdigit\<close> on code points 0--255;
    \<open>range(hi, lo, -1)\<close> as \<open>py_range_desc\<close>; \<open>collections.Counter\<close> as an
    insertion-ordered association list (\<open>counter\<close>, \<open>counter_get\<close> for \<open>c.get(k, 0)\<close>).
  \<^item> \<open>Cards\<close> (poker.py lines 16--26, 76--81, 97--110): suits, faces with the strings the
    code stores (\<open>face_str\<close>, \<open>card_head\<close> for \<open>c[0]\<close>), \<open>create_deck\<close>
    (\<open>random.shuffle\<close> is modelled by its contract, any permutation of the ordered
    deck), and the numeric rank chain of \<open>evaluate\<close>.
  \<^item> \<open>PyCompare\<close>: CPython's rich comparison of the score tuples
    \<open>(hand_rank, main_cards)\<close>, whose lists may mix \<open>int\<close> and \<open>str\<close>;
    \<open>score_lt\<close> returns \<open>Inl TypeError\<close> where CPython raises.
  \<^item> \<open>Evaluator\<close>: \<open>evaluate\<close> (lines 84--191), one definition per block of the
    function (flush suit, straight search, four of a kind, full house, flush padding,
    three of a kind, pairs) composed as the code composes them.
  \<^item> \<open>Resolver\<close>: the module globals \<open>player_wins\<close>, \<open>dealer_wins\<close>,
    \<open>pending_push_multiplier\<close> as the record \<open>tally\<close>, the settlement at the end of
    \<open>play_round\<close> (lines 282--292) as \<open>resolve\<close>, the percentages (lines 198--203), a
    session of settlements as \<open>resolve_rounds\<close> and the reachable tallies as the
    inductive \<open>tally_reachable\<close>.
  \<^item> \<open>Discard\<close>: \<open>dealer_discard_strategy\<close> (lines 221--244), its three keep loops as
    folds, against the per-card rule of spec section 4.3 (\<open>discard_spec\<close>).
  \<^item> \<open>Round\<close>: \<open>play_round\<close> (lines 247--292) with the deck threaded as a list and the
    input line as a parameter: dealing by \<open>deck.pop()\<close> (\<open>deal\<close>), the player's
    choice (\<open>player_draw\<close>, \<open>idxs_to_keep\<close>), the dealer's replacement
    (\<open>dealer_draw\<close>, \<open>replace_cards\<close>), the category names and the settlement;
    the session loop of \<open>game()\<close> (lines 295--302) as \<open>poker_game\<close>, over a list of
    rounds (each a shuffled deck, the discard line and the play-again line).
  \<^item> \<open>Blackjack\<close>: BBlackjack.py. \<open>calc_score\<close> (lines 102--117); \<open>place_bet\<close> and
    the coin display (47--64) over a list of input lines; the player's hit loop and the
    dealer's draw loop over a list of drawn cards (198--216); the settlement and the
    round (177--239); the game loop with the college-funds restart (150--176). The local
    variables of \<open>game()\<close> and the attributes of the absent module \<open>scorekeeper\<close>
    form the record \<open>bj_state\<close>; the reachable states are the inductive
    \<open>bj_reachable\<close>, for any draws, inputs and dealer target in 17..19.
  \<^item> \<open>Render\<close>: the terminal output of both games. Python strings are lists of code
    points (\<open>ustr\<close>) and what is printed is a list of \<open>out\<close> events. Poker's colours,
    suits, \<open>format_card\<close>, \<open>format_hidden_card\<close>, \<open>format_joker\<close>, \<open>render\<close> and
    \<open>show_table\<close> (lines 5--74, 206--218); blackjack's \<open>coin_str\<close>, \<open>typewriter\<close>,
    \<open>bj_format_card\<close>, \<open>render_hand\<close>, the banner and \<open>bj_show_table\<close> (lines
    10--45, 66--94, 119--143). \<open>visible\<close> is what a terminal shows of a line: the text
    outside the ANSI escape sequences.

  \<^bold>\<open>What is proved.\<close> Poker: \<open>evaluate\<close> is total and returns a well-shaped score
  whose category indexes \<open>HAND_NAMES\<close>; the score of a five-card hand depends only on
  the multiset of its cards; each block finds what the spec says (highest qualifying
  rank, the shared joker budget of the full house, the flush suit is the only suit of
  the standard cards, the straight window from 14 down to 6). Comparing two scores
  raises only when both are flushes. Examples on fixed hands back the findings: a
  five-card flush against a joker-padded one raises, an ace-high flush loses to a
  queen-high one (the tiebreak holds face strings), and replacing a card by a joker can
  lower the category. The resolver
  refines the spec's resolver on integer scores; \<open>k\<close> pushes multiply the next credit
  by \<open>2^k\<close>; every reachable tally has non-negative counts and a power-of-two
  multiplier; the percentages stay in 0..100. The dealer's discards are those of spec
  section 4.3, and the dealer keeps them in order and draws one card per discard. A
  round from a created deck never raises \<open>IndexError\<close>, ends with five cards per side
  taken from the deck (so at most two jokers), and settles as \<open>resolve\<close> does; a
  superscript digit at the prompt crashes it with \<open>ValueError\<close>. A session
  (\<open>poker_game\<close>) plays the rounds up to the first answered \<open>n\<close>, each from the
  tally the previous one left, and returns what playing those rounds in sequence
  (\<open>play_rounds\<close>) returns.
  Blackjack: \<open>calc_score\<close> is at least the blackjack value (\<open>bj_value\<close>, defined
  from the rules of the game, not from the code) and equals it when at most 21, and it differs exactly on hands such as \<open>[K, A, A]\<close> (22 instead of 12); the
  coins shown add up to the bet; \<open>place_bet\<close> takes the first valid line; the dealer's
  loop terminates and the player who only hits busts; in every reachable state the round
  never raises, the coins stay non-negative and are saved to \<open>scorekeeper.pcoins\<close>; a
  round after a push costs nothing, while a paid round moves the coins by the bet; from a
  non-negative \<open>gambledfunds\<close> every run of the game loop takes the college-funds
  restart at most once, and never when the counter starts above 0
  (\<open>bj_restarts\<close> is \<open>bj_reachable\<close> with the restarts counted).
  Rendering: both games draw a card alike (\<open>bj_format_card_eq\<close>); the three rows of a
  rendered hand line up, four columns per card (\<open>render_aligned\<close>,
  \<open>render_hand_aligned\<close>); poker's table before the showdown prints the same for any
  dealer hand of the same length, and blackjack's table during the player's turn the same
  whatever the hole card; blackjack's table raises \<open>IndexError\<close> only when asked to
  score a missing second dealer card, after printing only the cleared screen and the
  title.

  \<^bold>\<open>Bounds and fuel.\<close> The padding loop of the flush branch terminates by the measure
  \<open>5 - length\<close>; the other loops of \<open>evaluate\<close> run over fixed ranges. The loops
  that read input or draw random cards are structural recursions over the finite list
  of lines or cards given to them, and return \<open>None\<close> when it runs out; the
  termination theorems say how many are enough: 17 draws for the dealer (each card adds
  at least one point counted with aces as 1, from at least 2 up to a target of at most
  19), 20 hits for a player who never stands.

  \<^bold>\<open>Not modelled.\<close> The delays of \<open>time.sleep\<close> and the calls of
  \<open>show_table\<close> and \<open>print\<close> inside the rounds: the rounds are modelled by their
  effect on the hands, the deck, the tally and the coins, and the table by itself.
  \<open>random.shuffle\<close>, \<open>random.choice\<close> and \<open>random.randint\<close> are modelled by their
  ranges, as parameters. \<open>int(x / y * 100)\<close> is computed in exact arithmetic, not in
  binary floating point. Input lines are Isabelle strings, so input characters above code
  point 255 are not represented (printed text is, as code points). How wide a terminal
  draws a symbol is not modelled: \<open>visible\<close> counts code points. The \<open>scorekeeper\<close>
  module is not in the repository; only its two attributes are modelled. The
  \<open>KeyboardInterrupt\<close> handler of poker's \<open>game()\<close> reacts to a signal and only prints.
\<close>

end
